theory Spec2Isabelle
  imports Main
begin

section \<open>FaceGeneratorBot: a model of \<^verbatim>\<open>main.py\<close>\<close>

text \<open>
  The bot is a sequence of calls to the outside world: the Telegram Bot API, one HTTP
  GET per image, and the local file system holding the temporary \<^verbatim>\<open>.jpg\<close> files.
  The model threads an explicit \<open>world\<close> through every function and logs each external
  call, in order and with its outcome, in \<open>trace\<close>. Whether a call raises, what an HTTP GET returns and
  which identifier Telegram gives to a new message are answers of the environment
  \<open>env\<close>, looked up at the number of the call (\<open>clock\<close>). A Python exception is
  the left summand of the result; the world returned with it is the world at the raise.

  What the model takes from outside the program:
  \<^item> \<^verbatim>\<open>uuid.uuid4()\<close> is a supply of fresh names (\<open>next_uuid\<close>): two calls never give
    the same name;
  \<^item> opening and writing (or reading) a file is one call, which either raises or is done;
  \<^item> \<^verbatim>\<open>str.lower\<close> and \<^verbatim>\<open>int\<close> are functions of the interpreter and are fields of
    \<open>env\<close>, so that every theorem holds for whatever they compute; \<^verbatim>\<open>str.strip\<close> is
    defined, from the code points that count as white space;
  \<^item> the exceptions are those below \<^verbatim>\<open>Exception\<close>, which both \<^verbatim>\<open>except Exception\<close> and a
    bare \<^verbatim>\<open>except\<close> catch.
\<close>

subsection \<open>Data\<close>

type_synonym pystr = "nat list"
  \<comment> \<open>a Python \<^verbatim>\<open>str\<close>: the sequence of its Unicode code points\<close>

type_synonym content = "nat list"
  \<comment> \<open>a Python \<^verbatim>\<open>bytes\<close> value\<close>

datatype exn = ValueError | OSError | RequestException | ApiTelegramException

datatype filename = Jpg nat
  \<comment> \<open>\<^verbatim>\<open>f"{uuid.uuid4()}.jpg"\<close>; the uuid is the number drawn from the supply of fresh ones\<close>

datatype reply_markup = NoMarkup | ReplyKeyboardMarkup bool nat "pystr list"
  \<comment> \<open>\<^verbatim>\<open>resize_keyboard\<close>, \<^verbatim>\<open>row_width\<close>, the button labels\<close>

datatype handler = HandleCustomQuantity

record message =
  chat_id :: int
  message_id :: int
  msg_text :: pystr

datatype event =
    SendMessage int pystr bool reply_markup
      \<comment> \<open>chat, text, \<^verbatim>\<open>parse_mode='html'\<close> given, keyboard\<close>
  | EditMessageText int int pystr
  | DeleteMessage int int
  | SendMediaGroup int "content list"
  | SendPhoto int content
  | HttpGet pystr
  | FileWrite filename content
  | FileRead filename
  | FileRemove filename
  | Print exn
  | RegisterNextStep int handler

type_synonym entry = "event \<times> exn option"
  \<comment> \<open>a logged call and the exception it raised, if it raised\<close>

record world =
  clock :: nat
  next_uuid :: nat
  files :: "filename \<rightharpoonup> content"
  trace :: "entry list"

record env =
  failure :: "nat \<Rightarrow> exn option"
    \<comment> \<open>the exception raised by the external call number \<open>k\<close>, if it raises\<close>
  payload :: "nat \<Rightarrow> content"
    \<comment> \<open>\<^verbatim>\<open>response.content\<close> when call \<open>k\<close> is an HTTP GET that returns\<close>
  new_message_id :: "nat \<Rightarrow> int"
    \<comment> \<open>the id of the message created when call \<open>k\<close> is a send that returns\<close>
  str_lower :: "pystr \<Rightarrow> pystr"
    \<comment> \<open>\<^verbatim>\<open>str.lower\<close> of the interpreter (its Unicode case tables are not part of the program)\<close>
  int_of_str :: "pystr \<Rightarrow> int option"
    \<comment> \<open>\<^verbatim>\<open>int(s)\<close> of the interpreter; \<open>None\<close> is its \<^verbatim>\<open>ValueError\<close>\<close>

type_synonym 'a io = "world \<Rightarrow> (exn + 'a) \<times> world"

subsection \<open>Constants and string literals\<close>

definition MAX_IMAGES :: int where
  "MAX_IMAGES = 100"

definition GROUP_SIZE :: nat where
  "GROUP_SIZE = 9"

definition IMAGE_URL :: pystr where
  \<comment> \<open>the fixed upstream URL\<close>
  "IMAGE_URL =
    [104, 116, 116, 112, 115, 58, 47, 47, 116, 104, 105, 115, 112, 101, 114, 115, 111, 110,
     100, 111, 101, 115, 110, 111, 116, 101, 120, 105, 115, 116, 46, 99, 111, 109, 47]"

definition btn_get_image :: pystr where
  \<comment> \<open>button "Poluchit izobrazhenie" (get an image)\<close>
  "btn_get_image =
    [1055, 1086, 1083, 1091, 1095, 1080, 1090, 1100, 32, 1080, 1079, 1086, 1073, 1088,
     1072, 1078, 1077, 1085, 1080, 1077]"

definition btn_get_nine :: pystr where
  \<comment> \<open>button "Poluchit 9 izobrazhenii" (get 9 images)\<close>
  "btn_get_nine =
    [1055, 1086, 1083, 1091, 1095, 1080, 1090, 1100, 32, 57, 32, 1080, 1079, 1086, 1073,
     1088, 1072, 1078, 1077, 1085, 1080, 1081]"

definition btn_custom :: pystr where
  \<comment> \<open>button "Svoyo kolichestvo" (custom quantity)\<close>
  "btn_custom =
    [1057, 1074, 1086, 1105, 32, 1082, 1086, 1083, 1080, 1095, 1077, 1089, 1090, 1074, 1086]"

definition btn_back :: pystr where
  \<comment> \<open>button "Nazad" (back)\<close>
  "btn_back =
    [1053, 1072, 1079, 1072, 1076]"

definition btn_30 :: pystr where
  \<comment> \<open>button "30"\<close>
  "btn_30 =
    [51, 48]"

definition btn_60 :: pystr where
  \<comment> \<open>button "60"\<close>
  "btn_60 =
    [54, 48]"

definition btn_90 :: pystr where
  \<comment> \<open>button "90"\<close>
  "btn_90 =
    [57, 48]"

definition cmd_get_image :: pystr where
  \<comment> \<open>lower-case "poluchit izobrazhenie"\<close>
  "cmd_get_image =
    [1087, 1086, 1083, 1091, 1095, 1080, 1090, 1100, 32, 1080, 1079, 1086, 1073, 1088,
     1072, 1078, 1077, 1085, 1080, 1077]"

definition cmd_get_nine :: pystr where
  \<comment> \<open>lower-case "poluchit 9 izobrazhenii"\<close>
  "cmd_get_nine =
    [1087, 1086, 1083, 1091, 1095, 1080, 1090, 1100, 32, 57, 32, 1080, 1079, 1086, 1073,
     1088, 1072, 1078, 1077, 1085, 1080, 1081]"

definition cmd_custom :: pystr where
  \<comment> \<open>lower-case "svoyo kolichestvo"\<close>
  "cmd_custom =
    [1089, 1074, 1086, 1105, 32, 1082, 1086, 1083, 1080, 1095, 1077, 1089, 1090, 1074, 1086]"

definition cmd_back :: pystr where
  \<comment> \<open>lower-case "nazad"\<close>
  "cmd_back =
    [1085, 1072, 1079, 1072, 1076]"

definition txt_greeting :: pystr where
  \<comment> \<open>"Privet! Nazhmi na knopku i poluchi sgenerirovannoe litso"\<close>
  "txt_greeting =
    [1055, 1088, 1080, 1074, 1077, 1090, 33, 32, 1053, 1072, 1078, 1084, 1080, 32, 1085,
     1072, 32, 1082, 1085, 1086, 1087, 1082, 1091, 32, 1080, 32, 1087, 1086, 1083, 1091,
     1095, 1080, 32, 1089, 1075, 1077, 1085, 1077, 1088, 1080, 1088, 1086, 1074, 1072,
     1085, 1085, 1086, 1077, 32, 1083, 1080, 1094, 1086]"

definition txt_main_page :: pystr where
  \<comment> \<open>"Glavnaya stranitsa" (main page)\<close>
  "txt_main_page =
    [1043, 1083, 1072, 1074, 1085, 1072, 1103, 32, 1089, 1090, 1088, 1072, 1085, 1080,
     1094, 1072]"

definition txt_done :: pystr where
  \<comment> \<open>"Gotovo! Vyberite sleduyushchuyu komandu" (done, choose the next command)\<close>
  "txt_done =
    [1043, 1086, 1090, 1086, 1074, 1086, 33, 32, 1042, 1099, 1073, 1077, 1088, 1080, 1090,
     1077, 32, 1089, 1083, 1077, 1076, 1091, 1102, 1097, 1091, 1102, 32, 1082, 1086, 1084,
     1072, 1085, 1076, 1091]"

definition txt_ask_quantity :: pystr where
  \<comment> \<open>"Napishite, skolko lits sgenerirovat. Maksimum 100"\<close>
  "txt_ask_quantity =
    [1053, 1072, 1087, 1080, 1096, 1080, 1090, 1077, 44, 32, 1089, 1082, 1086, 1083, 1100,
     1082, 1086, 32, 1083, 1080, 1094, 32, 1089, 1075, 1077, 1085, 1077, 1088, 1080, 1088,
     1086, 1074, 1072, 1090, 1100, 46, 32, 1052, 1072, 1082, 1089, 1080, 1084, 1091, 1084,
     32, 49, 48, 48]"

definition txt_returned :: pystr where
  \<comment> \<open>"Vy vernulis na glavnuyu stranitsu" (you are back on the main page)\<close>
  "txt_returned =
    [1042, 1099, 32, 1074, 1077, 1088, 1085, 1091, 1083, 1080, 1089, 1100, 32, 1085, 1072,
     32, 1075, 1083, 1072, 1074, 1085, 1091, 1102, 32, 1089, 1090, 1088, 1072, 1085, 1080,
     1094, 1091]"

definition txt_enter_number :: pystr where
  \<comment> \<open>"Vvedite chislo ot 1 do 100" (enter a number from 1 to 100)\<close>
  "txt_enter_number =
    [1042, 1074, 1077, 1076, 1080, 1090, 1077, 32, 1095, 1080, 1089, 1083, 1086, 32, 1086,
     1090, 32, 49, 32, 1076, 1086, 32, 49, 48, 48]"

definition txt_generation :: pystr where
  \<comment> \<open>"Generatsiya " (the prefix of every progress text)\<close>
  "txt_generation =
    [1043, 1077, 1085, 1077, 1088, 1072, 1094, 1080, 1103, 32]"

definition txt_wait :: pystr where
  \<comment> \<open>". Pozhaluista, ne otpravlyaite soobshcheniya."\<close>
  "txt_wait =
    [46, 32, 1055, 1086, 1078, 1072, 1083, 1091, 1081, 1089, 1090, 1072, 44, 32, 1085,
     1077, 32, 1086, 1090, 1087, 1088, 1072, 1074, 1083, 1103, 1081, 1090, 1077, 32, 1089,
     1086, 1086, 1073, 1097, 1077, 1085, 1080, 1103, 46]"

definition txt_wait_until_done :: pystr where
  \<comment> \<open>". Pozhaluista, ne otpravlyaite soobshcheniya, poka protsess ne zavershitsya."\<close>
  "txt_wait_until_done =
    [46, 32, 1055, 1086, 1078, 1072, 1083, 1091, 1081, 1089, 1090, 1072, 44, 32, 1085,
     1077, 32, 1086, 1090, 1087, 1088, 1072, 1074, 1083, 1103, 1081, 1090, 1077, 32, 1089,
     1086, 1086, 1073, 1097, 1077, 1085, 1080, 1103, 44, 32, 1087, 1086, 1082, 1072, 32,
     1087, 1088, 1086, 1094, 1077, 1089, 1089, 32, 1085, 1077, 32, 1079, 1072, 1074, 1077,
     1088, 1096, 1080, 1090, 1089, 1103, 46]"

subsection \<open>Text primitives\<close>

definition isspace :: "nat \<Rightarrow> bool" where
  \<comment> \<open>the code points for which \<^verbatim>\<open>str.isspace\<close> holds\<close>
  "isspace c \<longleftrightarrow>
     (9 \<le> c \<and> c \<le> 13) \<or> (28 \<le> c \<and> c \<le> 32) \<or> c = 133 \<or> c = 160 \<or> c = 5760 \<or>
     (8192 \<le> c \<and> c \<le> 8202) \<or> c = 8232 \<or> c = 8233 \<or> c = 8239 \<or> c = 8287 \<or> c = 12288"

definition strip :: "pystr \<Rightarrow> pystr" where
  "strip s = rev (dropWhile isspace (rev (dropWhile isspace s)))"

fun digits :: "nat \<Rightarrow> pystr" where
  "digits n = (if n < 10 then [48 + n] else digits (n div 10) @ [48 + n mod 10])"

declare digits.simps [simp del]

definition str_int :: "int \<Rightarrow> pystr" where
  \<comment> \<open>\<^verbatim>\<open>str(i)\<close>, which an f-string applies to an \<^verbatim>\<open>int\<close> field\<close>
  "str_int i = (if i < 0 then 45 # digits (nat (- i)) else digits (nat i))"

fun digits_value :: "nat \<Rightarrow> pystr \<Rightarrow> nat option" where
  \<comment> \<open>the number that a string of ASCII digits shows, read from the left\<close>
  "digits_value acc [] = Some acc"
| "digits_value acc (c # cs) =
     (if 48 \<le> c \<and> c \<le> 57 then digits_value (10 * acc + (c - 48)) cs else None)"

definition start_text_multiple :: "int \<Rightarrow> pystr" where
  \<comment> \<open>line 135: "Generatsiya 0/{count}. Pozhaluista, ..., poka protsess ne zavershitsya."\<close>
  "start_text_multiple count = txt_generation @ [48, 47] @ str_int count @ txt_wait_until_done"

definition start_text_custom :: "int \<Rightarrow> pystr" where
  \<comment> \<open>line 222: "Generatsiya 0/{total_count}. Pozhaluista, ne otpravlyaite soobshcheniya."\<close>
  "start_text_custom total_count = txt_generation @ [48, 47] @ str_int total_count @ txt_wait"

definition progress_text :: "int \<Rightarrow> int \<Rightarrow> pystr" where
  \<comment> \<open>lines 148 and 236: "Generatsiya {i}/{count}. Pozhaluista, ne otpravlyaite soobshcheniya."\<close>
  "progress_text i count = txt_generation @ str_int i @ [47] @ str_int count @ txt_wait"

definition create_main_markup :: reply_markup where
  "create_main_markup = ReplyKeyboardMarkup True 3 [btn_get_image, btn_get_nine, btn_custom]"

definition create_quantity_markup :: reply_markup where
  "create_quantity_markup = ReplyKeyboardMarkup True 3 [btn_back, btn_30, btn_60, btn_90]"

subsection \<open>External calls\<close>

definition call :: "env \<Rightarrow> event \<Rightarrow> unit io" where
  \<comment> \<open>one external call: counted, logged with its outcome, failing when the environment says so\<close>
  "call env ev w =
     (let w' = w\<lparr>clock := Suc (clock w), trace := trace w @ [(ev, failure env (clock w))]\<rparr>
      in case failure env (clock w) of
           Some e \<Rightarrow> (Inl e, w')
         | None \<Rightarrow> (Inr (), w'))"

definition raise_at :: "event \<Rightarrow> exn \<Rightarrow> 'a io" where
  \<comment> \<open>a call that raises for a reason the model knows (a file that is not there)\<close>
  "raise_at ev e w = (Inl e, w\<lparr>clock := Suc (clock w), trace := trace w @ [(ev, Some e)]\<rparr>)"

definition log_event :: "event \<Rightarrow> world \<Rightarrow> world" where
  \<comment> \<open>a local effect that cannot fail (\<^verbatim>\<open>print\<close>, \<^verbatim>\<open>register_next_step_handler\<close>)\<close>
  "log_event ev w = w\<lparr>trace := trace w @ [(ev, None)]\<rparr>"

definition send_message :: "env \<Rightarrow> int \<Rightarrow> pystr \<Rightarrow> bool \<Rightarrow> reply_markup \<Rightarrow> int io" where
  \<comment> \<open>\<^verbatim>\<open>bot.send_message\<close>; returns the id of the message sent\<close>
  "send_message env chat txt html markup w =
     (case call env (SendMessage chat txt html markup) w of
        (Inl e, w') \<Rightarrow> (Inl e, w')
      | (Inr _, w') \<Rightarrow> (Inr (new_message_id env (clock w)), w'))"

definition edit_message_text :: "env \<Rightarrow> int \<Rightarrow> int \<Rightarrow> pystr \<Rightarrow> unit io" where
  "edit_message_text env chat mid txt = call env (EditMessageText chat mid txt)"

definition delete_message :: "env \<Rightarrow> int \<Rightarrow> int \<Rightarrow> unit io" where
  "delete_message env chat mid = call env (DeleteMessage chat mid)"

definition send_media_group :: "env \<Rightarrow> int \<Rightarrow> content list \<Rightarrow> unit io" where
  "send_media_group env chat images = call env (SendMediaGroup chat images)"

definition send_photo :: "env \<Rightarrow> int \<Rightarrow> content \<Rightarrow> unit io" where
  "send_photo env chat img = call env (SendPhoto chat img)"

definition requests_get :: "env \<Rightarrow> pystr \<Rightarrow> content io" where
  \<comment> \<open>\<^verbatim>\<open>requests.get(url).content\<close>: the body as received, whatever it is\<close>
  "requests_get env url w =
     (case call env (HttpGet url) w of
        (Inl e, w') \<Rightarrow> (Inl e, w')
      | (Inr _, w') \<Rightarrow> (Inr (payload env (clock w)), w'))"

definition file_write :: "env \<Rightarrow> filename \<Rightarrow> content \<Rightarrow> unit io" where
  \<comment> \<open>\<^verbatim>\<open>with open(filename, "wb") as f: f.write(data)\<close>\<close>
  "file_write env f c w =
     (case call env (FileWrite f c) w of
        (Inl e, w') \<Rightarrow> (Inl e, w')
      | (Inr _, w') \<Rightarrow> (Inr (), w'\<lparr>files := (files w')(f \<mapsto> c)\<rparr>))"

definition file_read :: "env \<Rightarrow> filename \<Rightarrow> content io" where
  \<comment> \<open>\<^verbatim>\<open>with open(filename, 'rb') as f: f.read()\<close>; a missing file is FileNotFoundError\<close>
  "file_read env f w =
     (case files w f of
        None \<Rightarrow> raise_at (FileRead f) OSError w
      | Some c \<Rightarrow>
          (case call env (FileRead f) w of
             (Inl e, w') \<Rightarrow> (Inl e, w')
           | (Inr _, w') \<Rightarrow> (Inr c, w')))"

definition os_remove :: "env \<Rightarrow> filename \<Rightarrow> unit io" where
  \<comment> \<open>\<^verbatim>\<open>os.remove(file)\<close>; a missing file is FileNotFoundError\<close>
  "os_remove env f w =
     (case files w f of
        None \<Rightarrow> raise_at (FileRemove f) OSError w
      | Some _ \<Rightarrow>
          (case call env (FileRemove f) w of
             (Inl e, w') \<Rightarrow> (Inl e, w')
           | (Inr _, w') \<Rightarrow> (Inr (), w'\<lparr>files := (files w')(f := None)\<rparr>)))"

fun for_loop :: "('i \<Rightarrow> 's \<Rightarrow> 's io) \<Rightarrow> 'i list \<Rightarrow> 's \<Rightarrow> 's io" where
  \<comment> \<open>\<^verbatim>\<open>for i in items: body\<close> over the loop's variables \<open>st\<close>; an exception ends the loop\<close>
  "for_loop body [] st w = (Inr st, w)"
| "for_loop body (i # rest) st w =
     (case body i st w of
        (Inl e, w') \<Rightarrow> (Inl e, w')
      | (Inr st', w') \<Rightarrow> for_loop body rest st' w')"

subsection \<open>The program\<close>

definition download_image :: "env \<Rightarrow> filename io" where
  \<comment> \<open>lines 48-58\<close>
  "download_image env w =
     (let filename = Jpg (next_uuid w);
          w0 = w\<lparr>next_uuid := Suc (next_uuid w)\<rparr>
      in case requests_get env IMAGE_URL w0 of
           (Inl e, w1) \<Rightarrow> (Inl e, w1)
         | (Inr response_content, w1) \<Rightarrow>
             (case file_write env filename response_content w1 of
                (Inl e, w2) \<Rightarrow> (Inl e, w2)
              | (Inr _, w2) \<Rightarrow> (Inr filename, w2)))"

definition handle_start :: "env \<Rightarrow> message \<Rightarrow> unit io" where
  \<comment> \<open>lines 61-73\<close>
  "handle_start env message w =
     (case send_message env (chat_id message) txt_greeting True create_main_markup w of
        (Inl e, w') \<Rightarrow> (Inl e, w')
      | (Inr _, w') \<Rightarrow> (Inr (), w'))"

definition send_single_image :: "env \<Rightarrow> message \<Rightarrow> unit io" where
  \<comment> \<open>lines 103-120\<close>
  "send_single_image env message w =
     (case download_image env w of
        (Inl e, w1) \<Rightarrow> (Inl e, w1)
      | (Inr filename, w1) \<Rightarrow>
          (case file_read env filename w1 of
             (Inl e, w2) \<Rightarrow> (Inl e, w2)
           | (Inr img, w2) \<Rightarrow>
               (case send_photo env (chat_id message) img w2 of
                  (Inl e, w3) \<Rightarrow> (Inl e, w3)
                | (Inr _, w3) \<Rightarrow>
                    (case os_remove env filename w3 of
                       (Inl e, w4) \<Rightarrow> (Inl e, w4)
                     | (Inr _, w4) \<Rightarrow>
                         (let w5 = snd (delete_message env (chat_id message)
                                          (message_id message) w4)
                          in case send_message env (chat_id message) txt_done True
                                    create_main_markup w5 of
                               (Inl e, w6) \<Rightarrow> (Inl e, w6)
                             | (Inr _, w6) \<Rightarrow> (Inr (), w6))))))"

definition multiple_body ::
  "env \<Rightarrow> int \<Rightarrow> int \<Rightarrow> int \<Rightarrow> int \<Rightarrow> content list \<times> filename list
     \<Rightarrow> (content list \<times> filename list) io" where
  \<comment> \<open>lines 140-153: one pass of the loop of \<^verbatim>\<open>send_multiple_images\<close>\<close>
  "multiple_body env chat progress_msg count i st w =
     (case st of (images, filenames) \<Rightarrow>
        (case download_image env w of
           (Inl e, w1) \<Rightarrow> (Inl e, w1)
         | (Inr filename, w1) \<Rightarrow>
             (case file_read env filename w1 of
                (Inl e, w2) \<Rightarrow> (Inl e, w2)
              | (Inr img, w2) \<Rightarrow>
                  (case edit_message_text env chat progress_msg (progress_text i count) w2 of
                     (Inl e, w3) \<Rightarrow> (Inl e, w3)
                   | (Inr _, w3) \<Rightarrow>
                       (if length (images @ [img]) = GROUP_SIZE \<or> i = count then
                          (case send_media_group env chat (images @ [img]) w3 of
                             (Inl e, w4) \<Rightarrow> (Inl e, w4)
                           | (Inr _, w4) \<Rightarrow> (Inr ([], filenames @ [filename]), w4))
                        else (Inr (images @ [img], filenames @ [filename]), w3))))))"

definition remove_files :: "env \<Rightarrow> filename list \<Rightarrow> unit io" where
  \<comment> \<open>\<^verbatim>\<open>for file in filenames: os.remove(file)\<close>\<close>
  "remove_files env filenames = for_loop (\<lambda>file _. os_remove env file) filenames ()"

definition send_multiple_images :: "env \<Rightarrow> message \<Rightarrow> int \<Rightarrow> unit io" where
  \<comment> \<open>lines 123-163\<close>
  "send_multiple_images env message count w =
     (case send_message env (chat_id message) (start_text_multiple count) True NoMarkup w of
        (Inl e, w0) \<Rightarrow> (Inl e, w0)
      | (Inr progress_msg, w0) \<Rightarrow>
          (case for_loop (multiple_body env (chat_id message) progress_msg count)
                  [1..count] ([], []) w0 of
             (Inl e, w1) \<Rightarrow> (Inl e, w1)
           | (Inr (images, filenames), w1) \<Rightarrow>
               (let w2 = snd (delete_message env (chat_id message) progress_msg w1)
                in case remove_files env filenames w2 of
                     (Inl e, w3) \<Rightarrow> (Inl e, w3)
                   | (Inr _, w3) \<Rightarrow>
                       (case send_message env (chat_id message) txt_done True
                               create_main_markup w3 of
                          (Inl e, w4) \<Rightarrow> (Inl e, w4)
                        | (Inr _, w4) \<Rightarrow> (Inr (), w4)))))"

definition custom_body ::
  "env \<Rightarrow> int \<Rightarrow> int \<Rightarrow> int \<Rightarrow> int \<Rightarrow> content list \<times> filename list \<times> int
     \<Rightarrow> (content list \<times> filename list \<times> int) io" where
  \<comment> \<open>lines 227-241: one pass of the loop of \<^verbatim>\<open>generate_custom_images\<close>\<close>
  "custom_body env chat progress_msg total_count i st w =
     (case st of (images, filenames, sent) \<Rightarrow>
        (case download_image env w of
           (Inl e, w1) \<Rightarrow> (Inl e, w1)
         | (Inr filename, w1) \<Rightarrow>
             (case file_read env filename w1 of
                (Inl e, w2) \<Rightarrow> (Inl e, w2)
              | (Inr img, w2) \<Rightarrow>
                  (case edit_message_text env chat progress_msg
                          (progress_text (sent + 1) total_count) w2 of
                     (Inl e, w3) \<Rightarrow> (Inl e, w3)
                   | (Inr _, w3) \<Rightarrow>
                       (if length (images @ [img]) = GROUP_SIZE \<or> i = total_count then
                          (case send_media_group env chat (images @ [img]) w3 of
                             (Inl e, w4) \<Rightarrow> (Inl e, w4)
                           | (Inr _, w4) \<Rightarrow> (Inr ([], filenames @ [filename], sent + 1), w4))
                        else (Inr (images @ [img], filenames @ [filename], sent + 1), w3))))))"

definition generate_custom_images :: "env \<Rightarrow> message \<Rightarrow> int \<Rightarrow> unit io" where
  \<comment> \<open>lines 208-251\<close>
  "generate_custom_images env message total_count w =
     (case send_message env (chat_id message) (start_text_custom total_count) True NoMarkup w of
        (Inl e, w0) \<Rightarrow> (Inl e, w0)
      | (Inr progress_msg, w0) \<Rightarrow>
          (case for_loop (custom_body env (chat_id message) progress_msg total_count)
                  [1..total_count] ([], [], 0) w0 of
             (Inl e, w1) \<Rightarrow> (Inl e, w1)
           | (Inr (images, filenames, sent), w1) \<Rightarrow>
               (let w2 = snd (delete_message env (chat_id message) progress_msg w1)
                in case remove_files env filenames w2 of
                     (Inl e, w3) \<Rightarrow> (Inl e, w3)
                   | (Inr _, w3) \<Rightarrow>
                       (case send_message env (chat_id message) txt_done True
                               create_main_markup w3 of
                          (Inl e, w4) \<Rightarrow> (Inl e, w4)
                        | (Inr _, w4) \<Rightarrow> (Inr (), w4)))))"

definition ask_for_custom_quantity :: "env \<Rightarrow> message \<Rightarrow> unit io" where
  \<comment> \<open>lines 166-178\<close>
  "ask_for_custom_quantity env message w =
     (case send_message env (chat_id message) txt_ask_quantity True create_quantity_markup w of
        (Inl e, w1) \<Rightarrow> (Inl e, w1)
      | (Inr prompt, w1) \<Rightarrow>
          (Inr (), log_event (RegisterNextStep prompt HandleCustomQuantity) w1))"

definition reprompt :: "env \<Rightarrow> message \<Rightarrow> unit io" where
  \<comment> \<open>lines 198-205: the body of \<^verbatim>\<open>except ValueError\<close>\<close>
  "reprompt env message w =
     (case send_message env (chat_id message) txt_enter_number True create_quantity_markup w of
        (Inl e, w1) \<Rightarrow> (Inl e, w1)
      | (Inr retry_msg, w1) \<Rightarrow>
          (Inr (), log_event (RegisterNextStep retry_msg HandleCustomQuantity) w1))"

definition handle_custom_quantity :: "env \<Rightarrow> message \<Rightarrow> unit io" where
  \<comment> \<open>lines 181-205\<close>
  "handle_custom_quantity env message w =
     (if str_lower env (msg_text message) = cmd_back then
        (case send_message env (chat_id message) txt_returned False create_main_markup w of
           (Inl e, w1) \<Rightarrow> (Inl e, w1)
         | (Inr _, w1) \<Rightarrow> (Inr (), w1))
      else
        (case int_of_str env (msg_text message) of
           None \<Rightarrow> reprompt env message w
         | Some quantity \<Rightarrow>
             (if 1 \<le> quantity \<and> quantity \<le> MAX_IMAGES then
                (case generate_custom_images env message quantity w of
                   (Inl ValueError, w1) \<Rightarrow> reprompt env message w1
                 | (Inl e, w1) \<Rightarrow> (Inl e, w1)
                 | (Inr _, w1) \<Rightarrow> (Inr (), w1))
              else reprompt env message w)))"

definition handle_text :: "env \<Rightarrow> message \<Rightarrow> unit io" where
  \<comment> \<open>lines 76-100\<close>
  "handle_text env message w =
     (let text = str_lower env (strip (msg_text message));
          w1 = (case delete_message env (chat_id message) (message_id message - 1) w of
                  (Inl e, w') \<Rightarrow> log_event (Print e) w'
                | (Inr _, w') \<Rightarrow> w')
      in if text = cmd_get_image then send_single_image env message w1
         else if text = cmd_get_nine then send_multiple_images env message 9 w1
         else if text = cmd_custom then ask_for_custom_quantity env message w1
         else (case send_message env (chat_id message) txt_main_page True
                       create_main_markup w1 of
                 (Inl e, w2) \<Rightarrow> (Inl e, w2)
               | (Inr _, w2) \<Rightarrow> (Inr (), w2)))"

subsection \<open>Reading the log\<close>

definition events_of :: "'a io \<Rightarrow> world \<Rightarrow> entry list" where
  \<comment> \<open>the calls that running \<open>f\<close> from \<open>w\<close> adds to the log\<close>
  "events_of f w = drop (length (trace w)) (trace (snd (f w)))"

fun is_fetch :: "event \<Rightarrow> bool" where
  "is_fetch (HttpGet url) = True"
| "is_fetch _ = False"

fun is_edit :: "event \<Rightarrow> bool" where
  "is_edit (EditMessageText chat mid txt) = True"
| "is_edit _ = False"

fun is_message :: "event \<Rightarrow> bool" where
  "is_message (SendMessage chat txt html markup) = True"
| "is_message _ = False"

fun is_remove :: "event \<Rightarrow> bool" where
  "is_remove (FileRemove f) = True"
| "is_remove _ = False"

fun is_loop_call :: "event \<Rightarrow> bool" where
  \<comment> \<open>the calls made inside the fetch-and-deliver loop\<close>
  "is_loop_call (HttpGet url) = True"
| "is_loop_call (FileWrite f c) = True"
| "is_loop_call (FileRead f) = True"
| "is_loop_call (EditMessageText chat mid txt) = True"
| "is_loop_call (SendMediaGroup chat images) = True"
| "is_loop_call _ = False"

fun batch_of :: "event \<Rightarrow> content list list" where
  "batch_of (SendMediaGroup chat images) = [images]"
| "batch_of _ = []"

fun written_of :: "event \<Rightarrow> filename list" where
  "written_of (FileWrite f c) = [f]"
| "written_of _ = []"

definition fetches :: "entry list \<Rightarrow> entry list" where
  "fetches evs = filter (\<lambda>x. is_fetch (fst x)) evs"

definition edits :: "entry list \<Rightarrow> entry list" where
  "edits evs = filter (\<lambda>x. is_edit (fst x)) evs"

definition messages :: "entry list \<Rightarrow> entry list" where
  "messages evs = filter (\<lambda>x. is_message (fst x)) evs"

definition removes :: "entry list \<Rightarrow> entry list" where
  "removes evs = filter (\<lambda>x. is_remove (fst x)) evs"

definition batches :: "entry list \<Rightarrow> content list list" where
  \<comment> \<open>the groups handed to \<^verbatim>\<open>send_media_group\<close>, in order\<close>
  "batches evs = concat (map (\<lambda>x. batch_of (fst x)) evs)"

definition written :: "entry list \<Rightarrow> filename list" where
  \<comment> \<open>the temporary files opened for writing, in order\<close>
  "written evs = concat (map (\<lambda>x. written_of (fst x)) evs)"

fun edit_text :: "event \<Rightarrow> pystr" where
  \<comment> \<open>the new text of an edit\<close>
  "edit_text (EditMessageText chat mid t) = t"
| "edit_text _ = []"

definition shown_progress :: "pystr \<Rightarrow> (nat \<times> nat) option" where
  \<comment> \<open>what a reader sees in "Generatsiya a/b. ...": the numbers \<open>a\<close> and \<open>b\<close>, when the text
      starts with "Generatsiya " and shows decimal digits before and after the slash\<close>
  "shown_progress t =
     (if take (length txt_generation) t = txt_generation then
        (let rest = drop (length txt_generation) t;
             a = takeWhile (\<lambda>c. c \<noteq> 47) rest;
             b = takeWhile (\<lambda>c. c \<noteq> 46) (drop (Suc (length a)) rest)
         in if a = [] \<or> b = [] then None
            else (case (digits_value 0 a, digits_value 0 b) of
                    (Some i, Some k) \<Rightarrow> Some (i, k)
                  | _ \<Rightarrow> None))
      else None)"

definition batch_sizes :: "nat \<Rightarrow> nat \<Rightarrow> nat list" where
  \<comment> \<open>\<open>k\<close> items cut into groups of \<open>g\<close>: the full groups, then the rest if there is one\<close>
  "batch_sizes k g = replicate (k div g) g @ (if k mod g = 0 then [] else [k mod g])"

definition strict_log :: "exn + 'a \<Rightarrow> entry list \<Rightarrow> bool" where
  \<comment> \<open>no call but the last raised, and the last raised exactly when the result is an exception\<close>
  "strict_log r evs \<longleftrightarrow>
     (\<forall>x \<in> set (butlast evs). snd x = None) \<and>
     (case r of
        Inl e \<Rightarrow> evs \<noteq> [] \<and> snd (last evs) = Some e
      | Inr _ \<Rightarrow> (\<forall>x \<in> set evs. snd x = None))"

definition all_succeed :: "env \<Rightarrow> world \<Rightarrow> bool" where
  \<comment> \<open>the success path: no external call from now on raises\<close>
  "all_succeed env w \<longleftrightarrow> (\<forall>k. clock w \<le> k \<longrightarrow> failure env k = None)"

subsection \<open>The two entry points as one relay\<close>

text \<open>
  \<^verbatim>\<open>send_multiple_images\<close> and \<^verbatim>\<open>generate_custom_images\<close> have the same text but for
  the first notification and the counter \<open>sent\<close>. The definitions below are not functions
  of the source: \<open>relay\<close> is that common text with the first notification as a parameter,
  \<open>after_start\<close> is what follows the first notification, and \<open>prepend_log\<close> puts
  entries in front of the log.
\<close>

definition after_start :: "env \<Rightarrow> int \<Rightarrow> int \<Rightarrow> int \<Rightarrow> unit io" where
  "after_start env chat progress_msg total_count w0 =
     (case for_loop (custom_body env chat progress_msg total_count)
             [1..total_count] ([], [], 0) w0 of
        (Inl e, w1) \<Rightarrow> (Inl e, w1)
      | (Inr (images, filenames, sent), w1) \<Rightarrow>
          (let w2 = snd (delete_message env chat progress_msg w1)
           in case remove_files env filenames w2 of
                (Inl e, w3) \<Rightarrow> (Inl e, w3)
              | (Inr _, w3) \<Rightarrow>
                  (case send_message env chat txt_done True create_main_markup w3 of
                     (Inl e, w4) \<Rightarrow> (Inl e, w4)
                   | (Inr _, w4) \<Rightarrow> (Inr (), w4))))"

definition relay :: "env \<Rightarrow> int \<Rightarrow> pystr \<Rightarrow> int \<Rightarrow> unit io" where
  "relay env chat start_text total_count w =
     (case send_message env chat start_text True NoMarkup w of
        (Inl e, w0) \<Rightarrow> (Inl e, w0)
      | (Inr progress_msg, w0) \<Rightarrow> after_start env chat progress_msg total_count w0)"


definition dispatch :: "env \<Rightarrow> message \<Rightarrow> pystr \<Rightarrow> unit io" where
  \<comment> \<open>lines 90-100: the \<^verbatim>\<open>if/elif\<close> chain of \<^verbatim>\<open>handle_text\<close>, on the text it computed\<close>
  "dispatch env message text w =
     (if text = cmd_get_image then send_single_image env message w
      else if text = cmd_get_nine then send_multiple_images env message 9 w
      else if text = cmd_custom then ask_for_custom_quantity env message w
      else (case send_message env (chat_id message) txt_main_page True create_main_markup w of
              (Inl e, w2) \<Rightarrow> (Inl e, w2)
            | (Inr _, w2) \<Rightarrow> (Inr (), w2)))"


subsection \<open>A concrete environment for running examples\<close>

definition basic_lower :: "pystr \<Rightarrow> pystr" where
  \<comment> \<open>\<^verbatim>\<open>str.lower\<close> on Basic Latin and on the Cyrillic block; other code points are kept\<close>
  "basic_lower s =
     map (\<lambda>c. if 65 \<le> c \<and> c \<le> 90 then c + 32
              else if 1040 \<le> c \<and> c \<le> 1071 then c + 32
              else if 1024 \<le> c \<and> c \<le> 1039 then c + 80
              else c) s"

definition basic_int :: "pystr \<Rightarrow> int option" where
  \<comment> \<open>\<^verbatim>\<open>int(s)\<close> on an optionally signed string of ASCII digits, surrounding space allowed\<close>
  "basic_int s =
     (case strip s of
        [] \<Rightarrow> None
      | c # cs \<Rightarrow>
          if c = 45 then (if cs = [] then None else map_option (\<lambda>v. - int v) (digits_value 0 cs))
          else if c = 43 then (if cs = [] then None else map_option int (digits_value 0 cs))
          else map_option int (digits_value 0 (c # cs)))"

definition env_ok :: env where
  \<comment> \<open>an environment in which no call ever raises\<close>
  "env_ok = \<lparr>failure = (\<lambda>k. None), payload = (\<lambda>k. [255, 216, k]),
     new_message_id = (\<lambda>k. 1000 + int k), str_lower = basic_lower, int_of_str = basic_int\<rparr>"

definition failing_at :: "nat \<Rightarrow> exn \<Rightarrow> env" where
  \<comment> \<open>as \<open>env_ok\<close>, except that external call number \<open>j\<close> raises \<open>e\<close>\<close>
  "failing_at j e = env_ok\<lparr>failure := (\<lambda>k. if k = j then Some e else None)\<rparr>"

definition world0 :: world where
  "world0 = \<lparr>clock = 0, next_uuid = 0, files = Map.empty, trace = []\<rparr>"

definition user_message :: "pystr \<Rightarrow> message" where
  "user_message txt = \<lparr>chat_id = 7, message_id = 42, msg_text = txt\<rparr>"

definition env_empty_body :: env where
  \<comment> \<open>as \<open>env_ok\<close>, except that every HTTP response has an empty body\<close>
  "env_empty_body = env_ok\<lparr>payload := (\<lambda>k. [])\<rparr>"

section \<open>Lemmas\<close>

subsection \<open>One pass of the loop\<close>

lemmas prim_defs = call_def raise_at_def log_event_def send_message_def edit_message_text_def
  delete_message_def send_media_group_def send_photo_def requests_get_def file_write_def
  file_read_def os_remove_def download_image_def

lemmas log_defs = fetches_def edits_def messages_def removes_def batches_def written_def

lemma custom_body_shape:
  assumes "custom_body env chat pid n i st w = (r, w')"
  shows "\<exists>evs. trace w' = trace w @ evs \<and> (\<forall>x \<in> set evs. is_loop_call (fst x)) \<and> strict_log r evs
     \<and> (\<forall>f. files w f \<noteq> None \<longrightarrow> files w' f \<noteq> None)
     \<and> (\<forall>f c. (FileWrite f c, None) \<in> set evs \<longrightarrow> files w' f \<noteq> None)"
  using assms
  by (cases st) (auto simp: custom_body_def prim_defs strict_log_def Let_def split: option.splits if_splits)

lemma custom_body_Inr:
  assumes "custom_body env chat pid n i (images, fns, s) w = (Inr st', w')"
  shows "st' = (if Suc (length images) = GROUP_SIZE \<or> i = n then [] else images @ [payload env (clock w)],
                fns @ [Jpg (next_uuid w)], s + 1) \<and>
         trace w' = trace w @ [(HttpGet IMAGE_URL, None),
            (FileWrite (Jpg (next_uuid w)) (payload env (clock w)), None),
            (FileRead (Jpg (next_uuid w)), None),
            (EditMessageText chat pid (progress_text (s + 1) n), None)] @
            (if Suc (length images) = GROUP_SIZE \<or> i = n
             then [(SendMediaGroup chat (images @ [payload env (clock w)]), None)] else []) \<and>
         files w' = (files w)(Jpg (next_uuid w) \<mapsto> payload env (clock w)) \<and>
         next_uuid w' = Suc (next_uuid w)"
  using assms
  by (auto simp: custom_body_def prim_defs Let_def split: option.splits if_splits)

lemma custom_body_ok:
  assumes "all_succeed env w"
  shows "\<exists>st' w'. custom_body env chat pid n i st w = (Inr st', w') \<and> all_succeed env w'"
  using assms
  by (cases st) (auto simp: custom_body_def prim_defs all_succeed_def Let_def split: option.splits if_splits)

lemma custom_body_fetch_failed:
  assumes "custom_body env chat pid n i st w = (Inl e, w')" "trace w' = trace w @ evs" "is_fetch (fst (last evs))"
  shows "evs = [(HttpGet IMAGE_URL, Some e)]"
  using assms
  by (cases st) (auto simp: custom_body_def prim_defs Let_def split: option.splits if_splits)

lemma strict_log_append:
  assumes "\<forall>x \<in> set evs1. snd x = None" "strict_log r evs2"
  shows "strict_log r (evs1 @ evs2)"
  using assms
  by (cases r) (auto simp: strict_log_def butlast_append dest: in_set_butlastD)

lemma upto_ConsD: "i # rest = [a..n] \<Longrightarrow> a = i \<and> i \<le> n \<and> rest = [i + 1..n]"
  by (cases "a \<le> n") (simp_all add: upto_rec1)

lemma custom_loop_shape:
  "for_loop (custom_body env chat pid n) is st w = (r, w') \<Longrightarrow>
   \<exists>evs. trace w' = trace w @ evs \<and> (\<forall>x \<in> set evs. is_loop_call (fst x)) \<and> strict_log r evs
     \<and> (\<forall>f. files w f \<noteq> None \<longrightarrow> files w' f \<noteq> None)
     \<and> (\<forall>f c. (FileWrite f c, None) \<in> set evs \<longrightarrow> files w' f \<noteq> None)"
proof (induction "is" arbitrary: st w)
  case Nil
  then show ?case by (auto simp: strict_log_def)
next
  case (Cons i rest)
  obtain r1 w1 where b: "custom_body env chat pid n i st w = (r1, w1)"
    by (cases "custom_body env chat pid n i st w")
  from custom_body_shape[OF b] obtain evs1 where
    e1: "trace w1 = trace w @ evs1" "\<forall>x \<in> set evs1. is_loop_call (fst x)" "strict_log r1 evs1"
     "\<forall>f. files w f \<noteq> None \<longrightarrow> files w1 f \<noteq> None"
     "\<forall>f c. (FileWrite f c, None) \<in> set evs1 \<longrightarrow> files w1 f \<noteq> None"
    by blast
  show ?case
  proof (cases r1)
    case (Inl e)
    with Cons.prems b have "r = Inl e" "w' = w1" by simp_all
    with e1 Inl show ?thesis by blast
  next
    case (Inr st1)
    with Cons.prems b have "for_loop (custom_body env chat pid n) rest st1 w1 = (r, w')" by simp
    from Cons.IH[OF this] obtain evs2 where
      e2: "trace w' = trace w1 @ evs2" "\<forall>x \<in> set evs2. is_loop_call (fst x)" "strict_log r evs2"
       "\<forall>f. files w1 f \<noteq> None \<longrightarrow> files w' f \<noteq> None"
       "\<forall>f c. (FileWrite f c, None) \<in> set evs2 \<longrightarrow> files w' f \<noteq> None"
      by blast
    from e1(3) Inr have n1: "\<forall>x \<in> set evs1. snd x = None" by (simp add: strict_log_def)
    have "trace w' = trace w @ (evs1 @ evs2)" using e1(1) e2(1) by simp
    moreover have "\<forall>x \<in> set (evs1 @ evs2). is_loop_call (fst x)" using e1(2) e2(2) by auto
    moreover have "strict_log r (evs1 @ evs2)" using n1 e2(3) by (rule strict_log_append)
    moreover have "\<forall>f. files w f \<noteq> None \<longrightarrow> files w' f \<noteq> None" using e1(4) e2(4) by blast
    moreover have "\<forall>f c. (FileWrite f c, None) \<in> set (evs1 @ evs2) \<longrightarrow> files w' f \<noteq> None"
      using e1(5) e2(4) e2(5) by auto
    ultimately show ?thesis by blast
  qed
qed

lemma custom_loop_ok:
  "all_succeed env w \<Longrightarrow>
   \<exists>st' w'. for_loop (custom_body env chat pid n) is st w = (Inr st', w') \<and> all_succeed env w'"
proof (induction "is" arbitrary: st w)
  case Nil
  then show ?case by (cases st) auto
next
  case (Cons i rest)
  from custom_body_ok[OF Cons.prems] obtain st1 w1 where
    "custom_body env chat pid n i st w = (Inr st1, w1)" "all_succeed env w1" by blast
  with Cons.IH[of w1 st1] show ?case by (cases st1) auto
qed

lemma batch_sizes_full: "0 < g \<Longrightarrow> batch_sizes (g + k) g = g # batch_sizes k g"
  by (simp add: batch_sizes_def div_add_self1)

lemma batch_sizes_single: "0 < k \<Longrightarrow> k \<le> g \<Longrightarrow> batch_sizes k g = [k]"
  by (cases "k = g") (simp_all add: batch_sizes_def)

lemma batch_sizes_0: "batch_sizes 0 g = []"
  by (simp add: batch_sizes_def)

lemma custom_loop_Inr:
  assumes "for_loop (custom_body env chat pid n) is (images, fns, s) w = (Inr (images', fns', s'), w')"
    and "is = [s + 1..n]" and "length images < GROUP_SIZE"
  shows "\<exists>evs. trace w' = trace w @ evs \<and>
      length (fetches evs) = length is \<and>
      map fst (edits evs) = map (\<lambda>j. EditMessageText chat pid (progress_text j n)) is \<and>
      map length (batches evs) =
        (if is = [] then [] else batch_sizes (length images + length is) GROUP_SIZE) \<and>
      written evs = map Jpg [next_uuid w..<next_uuid w + length is] \<and>
      fns' = fns @ written evs"
  using assms
proof (induction "is" arbitrary: images fns s w)
  case Nil
  then show ?case by (simp add: log_defs)
next
  case (Cons i rest)
  from upto_ConsD[OF Cons.prems(2)] have i: "i = s + 1" "i \<le> n" "rest = [(s + 1) + 1..n]" by simp_all
  obtain r1 w1 where b: "custom_body env chat pid n i (images, fns, s) w = (r1, w1)"
    by (cases "custom_body env chat pid n i (images, fns, s) w")
  with Cons.prems(1) obtain st1 where r1: "r1 = Inr st1"
    by (cases r1) simp_all
  define flush where "flush \<longleftrightarrow> Suc (length images) = GROUP_SIZE \<or> i = n"
  define c where "c = payload env (clock w)"
  define images1 where "images1 = (if flush then [] else images @ [c])"
  define evs1 :: "entry list" where "evs1 = [(HttpGet IMAGE_URL, None),
            (FileWrite (Jpg (next_uuid w)) c, None),
            (FileRead (Jpg (next_uuid w)), None),
            (EditMessageText chat pid (progress_text (s + 1) n), None)] @
            (if flush then [(SendMediaGroup chat (images @ [c]), None)] else [])"
  from custom_body_Inr[OF b[unfolded r1]] have
    st1: "st1 = (images1, fns @ [Jpg (next_uuid w)], s + 1)" and
    t1: "trace w1 = trace w @ evs1" and
    u1: "next_uuid w1 = Suc (next_uuid w)"
    by (simp_all add: flush_def c_def images1_def evs1_def)
  from Cons.prems(1) b r1 st1 have
    l: "for_loop (custom_body env chat pid n) rest (images1, fns @ [Jpg (next_uuid w)], s + 1) w1
          = (Inr (images', fns', s'), w')"
    by simp
  have len1: "length images1 < GROUP_SIZE"
    using Cons.prems(3) by (auto simp: images1_def flush_def GROUP_SIZE_def)
  from Cons.IH[OF l i(3) len1] obtain evs2 where
    e2: "trace w' = trace w1 @ evs2" "length (fetches evs2) = length rest"
      "map fst (edits evs2) = map (\<lambda>j. EditMessageText chat pid (progress_text j n)) rest"
      "map length (batches evs2) =
        (if rest = [] then [] else batch_sizes (length images1 + length rest) GROUP_SIZE)"
      "written evs2 = map Jpg [next_uuid w1..<next_uuid w1 + length rest]"
      "fns' = (fns @ [Jpg (next_uuid w)]) @ written evs2"
    by blast
  have restE: "rest = [] \<longleftrightarrow> i = n" using i(2,3) i(1) by (auto simp: upto_rec1)
  have sizes: "map length (batches (evs1 @ evs2)) =
       batch_sizes (length images + length (i # rest)) GROUP_SIZE"
  proof (cases flush)
    case True
    have "map length (batches (evs1 @ evs2)) = Suc (length images) # map length (batches evs2)"
      using True by (simp add: evs1_def log_defs)
    also have "map length (batches evs2) = batch_sizes (length rest) GROUP_SIZE"
      using e2(4) True by (simp add: images1_def batch_sizes_0)
    also have "Suc (length images) # batch_sizes (length rest) GROUP_SIZE =
       batch_sizes (length images + length (i # rest)) GROUP_SIZE"
    proof (cases "rest = []")
      case True
      then show ?thesis
        using Cons.prems(3) batch_sizes_single[of "Suc (length images)" GROUP_SIZE]
        by (simp add: batch_sizes_0)
    next
      case False
      with restE \<open>flush\<close> have "Suc (length images) = GROUP_SIZE" by (simp add: flush_def)
      then show ?thesis
        using batch_sizes_full[of GROUP_SIZE "length rest"] by (simp add: GROUP_SIZE_def)
    qed
    finally show ?thesis .
  next
    case False
    then have "rest \<noteq> []" using restE by (simp add: flush_def)
    then show ?thesis using e2(4) False by (simp add: evs1_def log_defs images1_def)
  qed
  have "trace w' = trace w @ (evs1 @ evs2)" using t1 e2(1) by simp
  moreover have "length (fetches (evs1 @ evs2)) = length (i # rest)"
    using e2(2) by (simp add: evs1_def log_defs)
  moreover have "map fst (edits (evs1 @ evs2)) =
      map (\<lambda>j. EditMessageText chat pid (progress_text j n)) (i # rest)"
    using e2(3) i(1) by (simp add: evs1_def log_defs)
  moreover have "written (evs1 @ evs2) = map Jpg [next_uuid w..<next_uuid w + length (i # rest)]"
  proof -
    have "[next_uuid w..<next_uuid w + length (i # rest)] =
        next_uuid w # [Suc (next_uuid w)..<Suc (next_uuid w) + length rest]"
      by (simp add: upt_conv_Cons del: upt_Suc)
    then show ?thesis using e2(5) u1 by (simp add: evs1_def log_defs del: upt_Suc)
  qed
  moreover have "fns' = fns @ written (evs1 @ evs2)"
    using e2(6) by (simp add: evs1_def log_defs)
  ultimately show ?case using sizes by (intro exI[of _ "evs1 @ evs2"]) simp
qed

lemma custom_loop_fetch_failed:
  assumes "for_loop (custom_body env chat pid n) is (images, fns, s) w = (Inl e, w')"
    and "trace w' = trace w @ evs" and "is_fetch (fst (last evs))"
    and "is = [i..n]" and "length images < GROUP_SIZE"
  shows "\<forall>b \<in> set (batches evs). length b = GROUP_SIZE"
  using assms
proof (induction "is" arbitrary: images fns s w i evs)
  case Nil
  then show ?case by simp
next
  case (Cons j rest)
  from upto_ConsD[OF Cons.prems(4)] have i: "i = j" "j \<le> n" "rest = [j + 1..n]" by simp_all
  obtain r1 w1 where b: "custom_body env chat pid n j (images, fns, s) w = (r1, w1)"
    by (cases "custom_body env chat pid n j (images, fns, s) w")
  show ?case
  proof (cases r1)
    case (Inl e1)
    with Cons.prems(1) b have "e1 = e" "w1 = w'" by simp_all
    with b Inl have "custom_body env chat pid n j (images, fns, s) w = (Inl e, w')" by simp
    from custom_body_fetch_failed[OF this Cons.prems(2,3)] show ?thesis
      by (simp add: log_defs)
  next
    case (Inr st1)
    define flush where "flush \<longleftrightarrow> Suc (length images) = GROUP_SIZE \<or> j = n"
    define c where "c = payload env (clock w)"
    define images1 where "images1 = (if flush then [] else images @ [c])"
    define evs1 :: "entry list" where "evs1 = [(HttpGet IMAGE_URL, None),
            (FileWrite (Jpg (next_uuid w)) c, None),
            (FileRead (Jpg (next_uuid w)), None),
            (EditMessageText chat pid (progress_text (s + 1) n), None)] @
            (if flush then [(SendMediaGroup chat (images @ [c]), None)] else [])"
    from custom_body_Inr[OF b[unfolded Inr]] have
      st1: "st1 = (images1, fns @ [Jpg (next_uuid w)], s + 1)" and
      t1: "trace w1 = trace w @ evs1"
      by (simp_all add: flush_def c_def images1_def evs1_def)
    from Cons.prems(1) b Inr st1 have
      l: "for_loop (custom_body env chat pid n) rest (images1, fns @ [Jpg (next_uuid w)], s + 1) w1
            = (Inl e, w')"
      by simp
    from custom_loop_shape[OF l] obtain evs2 where
      e2: "trace w' = trace w1 @ evs2" "strict_log (Inl e :: exn + (content list \<times> filename list \<times> int)) evs2" by blast
    then have ne: "evs2 \<noteq> []" by (simp add: strict_log_def)
    have evs: "evs = evs1 @ evs2" using Cons.prems(2) t1 e2(1) by simp
    with ne Cons.prems(3) have f2: "is_fetch (fst (last evs2))" by simp
    have len1: "length images1 < GROUP_SIZE"
      using Cons.prems(5) by (auto simp: images1_def flush_def GROUP_SIZE_def)
    from Cons.IH[OF l e2(1) f2 i(3) len1] have b2: "\<forall>b \<in> set (batches evs2). length b = GROUP_SIZE" .
    have "rest \<noteq> []" using l by auto
    with i have "j \<noteq> n" by auto
    then have "\<forall>b \<in> set (batches evs1). length b = GROUP_SIZE"
      by (auto simp: evs1_def log_defs flush_def)
    with b2 show ?thesis by (auto simp: evs log_defs)
  qed
qed

lemma os_remove_shape:
  assumes "os_remove env f w = (r, w')"
  shows "trace w' = trace w @ [(FileRemove f, case r of Inl e \<Rightarrow> Some e | Inr _ \<Rightarrow> None)] \<and>
         (\<forall>g. files w g = None \<longrightarrow> files w' g = None) \<and>
         (\<forall>x. r = Inr x \<longrightarrow> files w' = (files w)(f := None))"
  using assms
  by (auto simp: prim_defs Let_def split: option.splits)

lemma os_remove_ok:
  assumes "all_succeed env w" "files w f \<noteq> None"
  shows "\<exists>w'. os_remove env f w = (Inr (), w') \<and> all_succeed env w' \<and> files w' = (files w)(f := None)"
  using assms
  by (auto simp: prim_defs all_succeed_def Let_def split: option.splits)

lemma remove_files_shape:
  "remove_files env fns w = (r, w') \<Longrightarrow>
   \<exists>evs. trace w' = trace w @ evs \<and> (\<forall>x \<in> set evs. is_remove (fst x)) \<and> strict_log r evs \<and>
     (\<forall>f. files w f = None \<longrightarrow> files w' f = None) \<and>
     (\<forall>x. r = Inr x \<longrightarrow> (\<forall>f \<in> set fns. files w' f = None))"
  unfolding remove_files_def
proof (induction fns arbitrary: w)
  case Nil
  then show ?case by (auto simp: strict_log_def)
next
  case (Cons f rest)
  obtain r1 w1 where b: "os_remove env f w = (r1, w1)" by (cases "os_remove env f w")
  note s1 = os_remove_shape[OF b]
  show ?case
  proof (cases r1)
    case (Inl e)
    with Cons.prems b have "r = Inl e" "w' = w1" by simp_all
    with s1 Inl show ?thesis
      by (intro exI[of _ "[(FileRemove f, Some e)]"]) (simp add: strict_log_def)
  next
    case (Inr u)
    with Cons.prems b have l: "for_loop (\<lambda>file _. os_remove env file) rest () w1 = (r, w')" by simp
    from Cons.IH[OF l] obtain evs2 where
      e2: "trace w' = trace w1 @ evs2" "\<forall>x \<in> set evs2. is_remove (fst x)" "strict_log r evs2"
        "\<forall>f. files w1 f = None \<longrightarrow> files w' f = None"
        "\<forall>x. r = Inr x \<longrightarrow> (\<forall>f \<in> set rest. files w' f = None)"
      by blast
    have "strict_log r ([(FileRemove f, None)] @ evs2)"
      using e2(3) by (intro strict_log_append) simp_all
    moreover have "files w1 f = None" using s1 Inr by simp
    ultimately show ?thesis using s1 Inr e2
      by (intro exI[of _ "(FileRemove f, None) # evs2"]) auto
  qed
qed

lemma remove_files_ok:
  "all_succeed env w \<Longrightarrow> distinct fns \<Longrightarrow> \<forall>f \<in> set fns. files w f \<noteq> None \<Longrightarrow>
   \<exists>w'. remove_files env fns w = (Inr (), w') \<and> all_succeed env w'"
  unfolding remove_files_def
proof (induction fns arbitrary: w)
  case Nil
  then show ?case by simp
next
  case (Cons f rest)
  from os_remove_ok[OF Cons.prems(1), of f] Cons.prems(3) obtain w1 where
    w1: "os_remove env f w = (Inr (), w1)" "all_succeed env w1" "files w1 = (files w)(f := None)"
    by auto
  have "\<forall>g \<in> set rest. files w1 g \<noteq> None" using Cons.prems(2,3) w1(3) by auto
  with Cons.IH[OF w1(2)] Cons.prems(2) w1(1) show ?case by simp
qed

lemma events_ofI: "f w = (r, w') \<Longrightarrow> trace w' = trace w @ evs \<Longrightarrow> events_of f w = evs"
  by (simp add: events_of_def)

lemma written_mem: "f \<in> set (written evs) \<Longrightarrow> \<exists>c oc. (FileWrite f c, oc) \<in> set evs"
proof (induction evs)
  case Nil
  then show ?case by (simp add: written_def)
next
  case (Cons a evs)
  then show ?case by (cases a; cases "fst a") (auto simp: written_def)
qed

lemma removes_only:
  "\<forall>x \<in> set evs. is_remove (fst x) \<Longrightarrow>
   fetches evs = [] \<and> edits evs = [] \<and> messages evs = [] \<and> batches evs = [] \<and> written evs = []"
proof (induction evs)
  case Nil
  then show ?case by (simp add: log_defs)
next
  case (Cons a evs)
  then show ?case by (cases a; cases "fst a") (auto simp: log_defs)
qed

lemma loop_calls_only:
  "\<forall>x \<in> set evs. is_loop_call (fst x) \<Longrightarrow> messages evs = [] \<and> removes evs = []"
proof (induction evs)
  case Nil
  then show ?case by (simp add: log_defs)
next
  case (Cons a evs)
  then show ?case by (cases a; cases "fst a") (auto simp: log_defs)
qed

lemma upto_1_empty: "[1..n] = [] \<longleftrightarrow> nat n = 0"
  by (cases "1 \<le> n") (simp_all add: upto_rec1)

lemma log_Nil:
  "fetches [] = []" "edits [] = []" "messages [] = []" "removes [] = []" "batches [] = []"
  "written [] = []"
  by (simp_all add: log_defs)

lemma log_Cons:
  "fetches (x # xs) = (if is_fetch (fst x) then [x] else []) @ fetches xs"
  "edits (x # xs) = (if is_edit (fst x) then [x] else []) @ edits xs"
  "messages (x # xs) = (if is_message (fst x) then [x] else []) @ messages xs"
  "removes (x # xs) = (if is_remove (fst x) then [x] else []) @ removes xs"
  "batches (x # xs) = batch_of (fst x) @ batches xs"
  "written (x # xs) = written_of (fst x) @ written xs"
  by (simp_all add: log_defs)

lemma log_append:
  "fetches (xs @ ys) = fetches xs @ fetches ys"
  "edits (xs @ ys) = edits xs @ edits ys"
  "messages (xs @ ys) = messages xs @ messages ys"
  "removes (xs @ ys) = removes xs @ removes ys"
  "batches (xs @ ys) = batches xs @ batches ys"
  "written (xs @ ys) = written xs @ written ys"
  by (simp_all add: log_defs)

lemmas log_simps = log_Nil log_Cons log_append

lemma edits_all_succeeded:
  "\<forall>x \<in> set evs. snd x = None \<Longrightarrow> edits evs = map (\<lambda>ev. (ev, None)) (map fst (edits evs))"
  by (induction evs) (auto simp: log_defs)

lemma strict_log_mem:
  assumes "strict_log r evs" "(ev, Some e) \<in> set evs"
  shows "r = Inl e \<and> last evs = (ev, Some e)"
proof (cases evs rule: rev_cases)
  case Nil
  with assms(2) show ?thesis by simp
next
  case (snoc ys y)
  with assms show ?thesis by (cases r) (auto simp: strict_log_def)
qed

lemma remove_not_loop_call: "is_remove ev \<Longrightarrow> \<not> is_loop_call ev"
  by (cases ev) simp_all

lemma batch_sizes_length9: "length (batch_sizes k 9) = (k + 8) div 9"
proof -
  have "(k + 8) div 9 = k div 9 + (k mod 9 + 8) div 9"
    using div_add1_eq[of k 8 9] by simp
  moreover have "(k mod 9 + 8) div 9 = (if k mod 9 = 0 then 0 else 1)"
    by (auto intro!: div_nat_eqI)
  ultimately show ?thesis by (simp add: batch_sizes_def)
qed

lemma batch_sizes_sum: "sum_list (batch_sizes k g) = k"
proof -
  have "k div g * g + k mod g = k" by simp
  then show ?thesis by (auto simp: batch_sizes_def sum_list_replicate)
qed

lemma batch_sizes_le: "0 < g \<Longrightarrow> \<forall>s \<in> set (batch_sizes k g). s \<le> g"
  by (auto simp: batch_sizes_def intro: less_imp_le)

subsection \<open>Both entry points are the relay\<close>

lemma generate_custom_images_relay:
  "generate_custom_images env m n = relay env (chat_id m) (start_text_custom n) n"
proof (rule ext)
  fix w
  show "generate_custom_images env m n w = relay env (chat_id m) (start_text_custom n) n w"
    unfolding generate_custom_images_def relay_def after_start_def by (rule refl)
qed

lemma multiple_body_custom:
  "multiple_body env chat pid n i (images, fns) w =
     (case custom_body env chat pid n i (images, fns, i - 1) w of
        (Inl e, w') \<Rightarrow> (Inl e, w')
      | (Inr (images', fns', s'), w') \<Rightarrow> (Inr (images', fns'), w'))"
  by (auto simp: multiple_body_def custom_body_def split: prod.splits sum.splits)

lemma custom_body_sent:
  "custom_body env chat pid n i (images, fns, s) w = (Inr (images', fns', s'), w') \<Longrightarrow> s' = s + 1"
  by (auto simp: custom_body_def split: prod.splits sum.splits if_splits)

lemma multiple_loop_custom:
  "is = [s + 1..n] \<Longrightarrow>
   for_loop (multiple_body env chat pid n) is (images, fns) w =
     (case for_loop (custom_body env chat pid n) is (images, fns, s) w of
        (Inl e, w') \<Rightarrow> (Inl e, w')
      | (Inr (images', fns', s'), w') \<Rightarrow> (Inr (images', fns'), w'))"
proof (induction "is" arbitrary: images fns s w)
  case Nil
  then show ?case by simp
next
  case (Cons i rest)
  from upto_ConsD[OF Cons.prems] have i: "i = s + 1" "rest = [(s + 1) + 1..n]" by simp_all
  obtain r1 w1 where b: "custom_body env chat pid n i (images, fns, s) w = (r1, w1)"
    by (cases "custom_body env chat pid n i (images, fns, s) w")
  show ?case
  proof (cases r1)
    case (Inl e)
    with b i show ?thesis by (simp add: multiple_body_custom)
  next
    case (Inr st1)
    obtain images1 fns1 s1 where st1: "st1 = (images1, fns1, s1)" by (cases st1)
    from custom_body_sent[OF b[unfolded Inr st1]] have "s1 = s + 1" .
    with b Inr st1 i Cons.IH[OF i(2), of images1 fns1 w1] show ?thesis
      by (simp add: multiple_body_custom)
  qed
qed

lemma send_multiple_images_relay:
  "send_multiple_images env m n = relay env (chat_id m) (start_text_multiple n) n"
proof (rule ext)
  fix w
  have "\<And>pid w0. for_loop (multiple_body env (chat_id m) pid n) [1..n] ([], []) w0 =
     (case for_loop (custom_body env (chat_id m) pid n) [1..n] ([], [], 0) w0 of
        (Inl e, w') \<Rightarrow> (Inl e, w')
      | (Inr (images', fns', s'), w') \<Rightarrow> (Inr (images', fns'), w'))"
    using multiple_loop_custom[of "[1..n]" 0 n] by simp
  then show "send_multiple_images env m n w = relay env (chat_id m) (start_text_multiple n) n w"
    unfolding send_multiple_images_def relay_def after_start_def
    by (auto split: prod.splits sum.splits)
qed

subsection \<open>No operation reads the log\<close>








subsection \<open>The shape of a run\<close>

lemma relay_cases:
  assumes run: "relay env chat stxt n w = (r, w')"
  obtains
    (start_failed) e where
      "r = Inl e"
      "trace w' = trace w @ [(SendMessage chat stxt True NoMarkup, Some e)]"
      "files w' = files w"
  | (loop_failed) e levs where
      "r = Inl e"
      "trace w' = trace w @ (SendMessage chat stxt True NoMarkup, None) # levs"
      "\<forall>x \<in> set levs. is_loop_call (fst x)"
      "strict_log r levs"
      "\<forall>f c. (FileWrite f c, None) \<in> set levs \<longrightarrow> files w' f \<noteq> None"
      "is_fetch (fst (last levs)) \<longrightarrow> (\<forall>b \<in> set (batches levs). length b = GROUP_SIZE)"
  | (loop_done) levs od revs fin where
      "trace w' = trace w @ (SendMessage chat stxt True NoMarkup, None) # levs
          @ (DeleteMessage chat (new_message_id env (clock w)), od) # revs @ fin"
      "\<forall>x \<in> set levs. is_loop_call (fst x) \<and> snd x = None"
      "length (fetches levs) = nat n"
      "map fst (edits levs) =
         map (\<lambda>j. EditMessageText chat (new_message_id env (clock w)) (progress_text j n)) [1..n]"
      "map length (batches levs) = batch_sizes (nat n) GROUP_SIZE"
      "written levs = map Jpg [next_uuid w..<next_uuid w + nat n]"
      "\<forall>x \<in> set revs. is_remove (fst x)"
      "(\<exists>e. r = Inl e \<and> fin = [] \<and> strict_log r revs) \<or>
       ((\<forall>x \<in> set revs. snd x = None) \<and> (\<forall>f \<in> set (written levs). files w' f = None) \<and>
        (\<exists>oc. fin = [(SendMessage chat txt_done True create_main_markup, oc)] \<and>
              r = (case oc of None \<Rightarrow> Inr () | Some e \<Rightarrow> Inl e)))"
proof -
  let ?pid = "new_message_id env (clock w)"
  let ?start = "SendMessage chat stxt True NoMarkup"
  show thesis
  proof (cases "failure env (clock w)")
    case (Some e)
    with run have "r = Inl e" "trace w' = trace w @ [(?start, Some e)]" "files w' = files w"
      by (auto simp: relay_def after_start_def prim_defs Let_def)
    then show thesis using start_failed by simp
  next
    case None
    define w0 where "w0 = w\<lparr>clock := Suc (clock w), trace := trace w @ [(?start, None)]\<rparr>"
    obtain r1 w1 where l: "for_loop (custom_body env chat ?pid n) [1..n] ([], [], 0) w0 = (r1, w1)"
      by (cases "for_loop (custom_body env chat ?pid n) [1..n] ([], [], 0) w0")
    from custom_loop_shape[OF l] obtain levs where
      s: "trace w1 = trace w0 @ levs" "\<forall>x \<in> set levs. is_loop_call (fst x)" "strict_log r1 levs"
         "\<forall>f c. (FileWrite f c, None) \<in> set levs \<longrightarrow> files w1 f \<noteq> None"
      by blast
    have t1: "trace w1 = trace w @ (?start, None) # levs" using s(1) by (simp add: w0_def)
    show thesis
    proof (cases r1)
      case (Inl e)
      with run None l have rw: "r = Inl e" "w' = w1"
        by (auto simp: relay_def after_start_def send_message_def call_def Let_def
               w0_def)
      have "is_fetch (fst (last levs)) \<longrightarrow> (\<forall>b \<in> set (batches levs). length b = GROUP_SIZE)"
        using custom_loop_fetch_failed[OF l[unfolded Inl] s(1), of 1]
        by (simp add: GROUP_SIZE_def)
      moreover have "strict_log r levs" using s(3) Inl rw by (simp add: strict_log_def)
      ultimately show thesis using rw t1 s(2,4) loop_failed[of e levs]
        by simp
    next
      case (Inr st1)
      obtain images fns sent where st1: "st1 = (images, fns, sent)" by (cases st1)
      from custom_loop_Inr[OF l[unfolded Inr st1]] s(1) have
        f: "length (fetches levs) = length [1..n]"
           "map fst (edits levs) = map (\<lambda>j. EditMessageText chat ?pid (progress_text j n)) [1..n]"
           "map length (batches levs) =
              (if [1..n] = [] then [] else batch_sizes (length [1..n]) GROUP_SIZE)"
           "written levs = map Jpg [next_uuid w0..<next_uuid w0 + length [1..n]]"
           "fns = written levs"
        by (auto simp: GROUP_SIZE_def)
      have ok: "\<forall>x \<in> set levs. snd x = None" using s(3) Inr by (simp add: strict_log_def)
      have sizes: "map length (batches levs) = batch_sizes (nat n) GROUP_SIZE"
        using f(3) by (auto simp: upto_1_empty batch_sizes_0)
      define od where "od = failure env (clock w1)"
      define w2 where "w2 = w1\<lparr>clock := Suc (clock w1),
         trace := trace w1 @ [(DeleteMessage chat ?pid, od)]\<rparr>"
      have w2: "snd (delete_message env chat ?pid w1) = w2"
        by (simp add: delete_message_def call_def Let_def w2_def od_def split: option.splits)
      obtain r3 w3 where rm: "remove_files env fns w2 = (r3, w3)"
        by (cases "remove_files env fns w2")
      from remove_files_shape[OF rm] obtain revs where
        rs: "trace w3 = trace w2 @ revs" "\<forall>x \<in> set revs. is_remove (fst x)" "strict_log r3 revs"
            "\<forall>x. r3 = Inr x \<longrightarrow> (\<forall>f \<in> set fns. files w3 f = None)"
        by blast
      have t3: "trace w3 = trace w @ (?start, None) # levs @ (DeleteMessage chat ?pid, od) # revs"
        using rs(1) t1 by (simp add: w2_def)
      have rest: "(case remove_files env fns w2 of
               (Inl e, w3) \<Rightarrow> (Inl e, w3)
             | (Inr _, w3) \<Rightarrow>
                 (case send_message env chat txt_done True create_main_markup w3 of
                    (Inl e, w4) \<Rightarrow> (Inl e, w4)
                  | (Inr _, w4) \<Rightarrow> (Inr (), w4))) = (r, w')"
        using run None l Inr st1 w2
        by (simp add: relay_def after_start_def send_message_def[of _ _ stxt]
               call_def Let_def  w0_def)
      show thesis
      proof (cases r3)
        case (Inl e)
        with rest rm have "r = Inl e" "w' = w3" by simp_all
        moreover have "strict_log r revs" using rs(3) Inl \<open>r = Inl e\<close> by (simp add: strict_log_def)
        ultimately show thesis using t3 rs(2) f ok s(2) sizes
          using loop_done[of levs od revs "[]"]
          by (simp add:  w0_def)
      next
        case (Inr u)
        define oc where "oc = failure env (clock w3)"
        from rest rm Inr have
          fin: "r = (case oc of None \<Rightarrow> Inr () | Some e \<Rightarrow> Inl e)"
            "trace w' = trace w3 @ [(SendMessage chat txt_done True create_main_markup, oc)]"
            "files w' = files w3"
          by (auto simp: send_message_def call_def Let_def oc_def split: option.splits)
        have "\<forall>x \<in> set revs. snd x = None" using rs(3) Inr by (simp add: strict_log_def)
        moreover have "\<forall>f \<in> set (written levs). files w' f = None"
          using rs(4) Inr f(5) fin(3) by simp
        ultimately show thesis
          using loop_done[of levs od revs "[(SendMessage chat txt_done True create_main_markup, oc)]"]
            t3 rs(2) f ok s(2) sizes fin
          by (simp add:  w0_def)
      qed
    qed
  qed
qed


lemma relay_ok:
  assumes "all_succeed env w"
  shows "fst (relay env chat stxt n w) = Inr ()"
proof -
  let ?pid = "new_message_id env (clock w)"
  let ?start = "SendMessage chat stxt True NoMarkup"
  from assms have f0: "failure env (clock w) = None" by (simp add: all_succeed_def)
  define w0 where "w0 = w\<lparr>clock := Suc (clock w), trace := trace w @ [(?start, None)]\<rparr>"
  have a0: "all_succeed env w0" using assms by (simp add: all_succeed_def w0_def)
  from custom_loop_ok[OF a0] obtain st1 w1 where
    l: "for_loop (custom_body env chat ?pid n) [1..n] ([], [], 0) w0 = (Inr st1, w1)" and
    a1: "all_succeed env w1" by blast
  obtain images fns sent where st1: "st1 = (images, fns, sent)" by (cases st1)
  from custom_loop_shape[OF l] obtain levs where
    s: "trace w1 = trace w0 @ levs"
       "strict_log (Inr st1 :: exn + (content list \<times> filename list \<times> int)) levs"
       "\<forall>f c. (FileWrite f c, None) \<in> set levs \<longrightarrow> files w1 f \<noteq> None"
    by blast
  from custom_loop_Inr[OF l[unfolded st1]] s(1) have
    fns: "fns = map Jpg [next_uuid w0..<next_uuid w0 + length [1..n]]" "fns = written levs"
    by (auto simp: GROUP_SIZE_def)
  have d: "distinct fns" unfolding fns(1) by (simp add: distinct_map inj_on_def)
  have p: "\<forall>f \<in> set fns. files w1 f \<noteq> None"
  proof
    fix f assume "f \<in> set fns"
    then obtain c oc where m: "(FileWrite f c, oc) \<in> set levs" using written_mem fns(2) by blast
    with s(2) have "oc = None" by (auto simp: strict_log_def)
    with m s(3) show "files w1 f \<noteq> None" by blast
  qed
  define w2 where "w2 = snd (delete_message env chat ?pid w1)"
  have a2: "all_succeed env w2" "files w2 = files w1"
    using a1 by (simp_all add: w2_def delete_message_def call_def Let_def all_succeed_def
         split: option.splits)
  from remove_files_ok[OF a2(1) d] p a2(2) obtain w3 where
    rm: "remove_files env fns w2 = (Inr (), w3)" and a3: "all_succeed env w3" by auto
  from a3 have f3: "failure env (clock w3) = None" by (simp add: all_succeed_def)
  show ?thesis
    using f0 l st1 rm f3
    by (simp add: relay_def after_start_def send_message_def call_def Let_def w0_def w2_def)
qed


subsection \<open>Runs that return and runs that raise\<close>

lemma relay_returned:
  assumes "fst (relay env chat stxt n w) = Inr ()"
  shows "length (fetches (events_of (relay env chat stxt n) w)) = nat n"
    and "map length (batches (events_of (relay env chat stxt n) w)) = batch_sizes (nat n) GROUP_SIZE"
    and "edits (events_of (relay env chat stxt n) w) =
           map (\<lambda>i. (EditMessageText chat (new_message_id env (clock w)) (progress_text i n), None))
             [1..n]"
    and "messages (events_of (relay env chat stxt n) w) =
           [(SendMessage chat stxt True NoMarkup, None),
            (SendMessage chat txt_done True create_main_markup, None)]"
    and "\<forall>f \<in> set (written (events_of (relay env chat stxt n) w)).
           files (snd (relay env chat stxt n w)) f = None"
proof -
  obtain r w' where run: "relay env chat stxt n w = (r, w')"
    by (cases "relay env chat stxt n w")
  with assms have r: "r = Inr ()" by simp
  define evs where "evs = events_of (relay env chat stxt n) w"
  from run have "length (fetches evs) = nat n \<and>
      map length (batches evs) = batch_sizes (nat n) GROUP_SIZE \<and>
      edits evs = map (\<lambda>i. (EditMessageText chat (new_message_id env (clock w)) (progress_text i n), None)) [1..n] \<and>
      messages evs = [(SendMessage chat stxt True NoMarkup, None),
            (SendMessage chat txt_done True create_main_markup, None)] \<and>
      (\<forall>f \<in> set (written evs). files w' f = None)"
  proof (cases rule: relay_cases)
    case (start_failed e)
    with r show ?thesis by simp
  next
    case (loop_failed e levs)
    with r show ?thesis by simp
  next
    case (loop_done levs od revs fin)
    from loop_done(8) r have
      fin: "fin = [(SendMessage chat txt_done True create_main_markup, None)]"
      and gone: "\<forall>f \<in> set (written levs). files w' f = None"
      by (auto split: option.splits)
    from events_ofI[of "relay env chat stxt n" w, OF run loop_done(1)]
    have evs: "evs = (SendMessage chat stxt True NoMarkup, None) # levs
          @ (DeleteMessage chat (new_message_id env (clock w)), od) # revs @ fin"
      by (simp add: evs_def)
    have "edits levs = map (\<lambda>ev. (ev, None)) (map fst (edits levs))"
      using loop_done(2) by (intro edits_all_succeeded) simp
    then have e: "edits levs = map (\<lambda>i. (EditMessageText chat (new_message_id env (clock w))
        (progress_text i n), None)) [1..n]"
      unfolding loop_done(4) by (simp add: comp_def)
    have m: "messages levs = []" using loop_calls_only[of levs] loop_done(2) by simp
    show ?thesis
      using loop_done(3,5) removes_only[OF loop_done(7)] fin e m gone
      by (simp add: evs log_simps)
  qed
  then show "length (fetches (events_of (relay env chat stxt n) w)) = nat n"
    and "map length (batches (events_of (relay env chat stxt n) w)) = batch_sizes (nat n) GROUP_SIZE"
    and "edits (events_of (relay env chat stxt n) w) =
           map (\<lambda>i. (EditMessageText chat (new_message_id env (clock w)) (progress_text i n), None))
             [1..n]"
    and "messages (events_of (relay env chat stxt n) w) =
           [(SendMessage chat stxt True NoMarkup, None),
            (SendMessage chat txt_done True create_main_markup, None)]"
    and "\<forall>f \<in> set (written (events_of (relay env chat stxt n) w)).
           files (snd (relay env chat stxt n w)) f = None"
    using run by (simp_all add: evs_def)
qed

lemma relay_raised:
  assumes "(ev, Some e) \<in> set (events_of (relay env chat stxt n) w)" "is_loop_call ev"
  shows "fst (relay env chat stxt n w) = Inl e"
    and "last (events_of (relay env chat stxt n) w) = (ev, Some e)"
    and "removes (events_of (relay env chat stxt n) w) = []"
    and "messages (events_of (relay env chat stxt n) w) = [(SendMessage chat stxt True NoMarkup, None)]"
    and "\<forall>f c. (FileWrite f c, None) \<in> set (events_of (relay env chat stxt n) w) \<longrightarrow>
           files (snd (relay env chat stxt n w)) f \<noteq> None"
    and "is_fetch ev \<longrightarrow> (\<forall>b \<in> set (batches (events_of (relay env chat stxt n) w)). length b = GROUP_SIZE)"
proof -
  obtain r w' where run: "relay env chat stxt n w = (r, w')"
    by (cases "relay env chat stxt n w")
  define evs where "evs = events_of (relay env chat stxt n) w"
  from assms(1) have mem: "(ev, Some e) \<in> set evs" by (simp add: evs_def)
  from run have "r = Inl e \<and> last evs = (ev, Some e) \<and> removes evs = [] \<and>
      messages evs = [(SendMessage chat stxt True NoMarkup, None)] \<and>
      (\<forall>f c. (FileWrite f c, None) \<in> set evs \<longrightarrow> files w' f \<noteq> None) \<and>
      (is_fetch ev \<longrightarrow> (\<forall>b \<in> set (batches evs). length b = GROUP_SIZE))"
  proof (cases rule: relay_cases)
    case (start_failed e')
    from events_ofI[of "relay env chat stxt n" w, OF run start_failed(2)]
    have "evs = [(SendMessage chat stxt True NoMarkup, Some e')]" by (simp add: evs_def)
    with mem assms(2) show ?thesis by auto
  next
    case (loop_failed e' levs)
    from events_ofI[of "relay env chat stxt n" w, OF run loop_failed(2)]
    have evs: "evs = (SendMessage chat stxt True NoMarkup, None) # levs" by (simp add: evs_def)
    with mem have "(ev, Some e) \<in> set levs" by auto
    from strict_log_mem[OF loop_failed(4) this] have l: "r = Inl e" "last levs = (ev, Some e)"
      by simp_all
    from loop_failed(4,1) have ne: "levs \<noteq> []" by (simp add: strict_log_def)
    from loop_calls_only[of levs] loop_failed(3)
    have "messages levs = []" "removes levs = []" by simp_all
    with l ne loop_failed(5,6) show ?thesis by (auto simp: evs log_simps)
  next
    case (loop_done levs od revs fin)
    from events_ofI[of "relay env chat stxt n" w, OF run loop_done(1)]
    have evs: "evs = (SendMessage chat stxt True NoMarkup, None) # levs
          @ (DeleteMessage chat (new_message_id env (clock w)), od) # revs @ fin"
      by (simp add: evs_def)
    have "(ev, Some e) \<notin> set revs" using loop_done(7) assms(2) remove_not_loop_call by fastforce
    moreover have "(ev, Some e) \<notin> set fin" using loop_done(8) assms(2) by auto
    moreover have "(ev, Some e) \<notin> set levs" using loop_done(2) by auto
    ultimately show ?thesis using mem assms(2) by (auto simp: evs)
  qed
  then show "fst (relay env chat stxt n w) = Inl e"
    and "last (events_of (relay env chat stxt n) w) = (ev, Some e)"
    and "removes (events_of (relay env chat stxt n) w) = []"
    and "messages (events_of (relay env chat stxt n) w) = [(SendMessage chat stxt True NoMarkup, None)]"
    and "\<forall>f c. (FileWrite f c, None) \<in> set (events_of (relay env chat stxt n) w) \<longrightarrow>
           files (snd (relay env chat stxt n w)) f \<noteq> None"
    and "is_fetch ev \<longrightarrow> (\<forall>b \<in> set (batches (events_of (relay env chat stxt n) w)). length b = GROUP_SIZE)"
    using run by (simp_all add: evs_def)
qed

subsection \<open>Evaluating concrete runs\<close>

lemmas run_defs = generate_custom_images_def send_multiple_images_def custom_body_def
  multiple_body_def remove_files_def send_single_image_def prim_defs events_of_def env_ok_def
  failing_at_def world0_def user_message_def Let_def upto.simps GROUP_SIZE_def log_defs

lemma entry_points:
  assumes "run = send_multiple_images env m n \<or> run = generate_custom_images env m n"
  obtains stxt where "run = relay env (chat_id m) stxt n"
  using assms generate_custom_images_relay send_multiple_images_relay by blast

subsection \<open>The first notification\<close>




subsection \<open>The handlers\<close>

lemma handle_text_unfold:
  "handle_text env m w =
     dispatch env m (str_lower env (strip (msg_text m)))
       (w\<lparr>clock := Suc (clock w),
          trace := trace w @ (DeleteMessage (chat_id m) (message_id m - 1), failure env (clock w)) #
            (case failure env (clock w) of None \<Rightarrow> [] | Some e \<Rightarrow> [(Print e, None)])\<rparr>)"
  unfolding handle_text_def dispatch_def
  by (cases "failure env (clock w)") (simp_all add: delete_message_def call_def log_event_def Let_def)

lemma relay_extends: "\<exists>evs. trace (snd (relay env chat stxt n w)) = trace w @ evs"
proof -
  obtain r w' where run: "relay env chat stxt n w = (r, w')" by (cases "relay env chat stxt n w")
  from run have "\<exists>evs. trace w' = trace w @ evs" by (cases rule: relay_cases) simp_all
  with run show ?thesis by simp
qed

lemma reprompt_events:
  "trace (snd (reprompt env m w)) = trace w @
     (SendMessage (chat_id m) txt_enter_number True create_quantity_markup, failure env (clock w)) #
     (case failure env (clock w) of
        None \<Rightarrow> [(RegisterNextStep (new_message_id env (clock w)) HandleCustomQuantity, None)]
      | Some e \<Rightarrow> [])"
  by (cases "failure env (clock w)")
     (simp_all add: reprompt_def send_message_def call_def log_event_def Let_def)

lemmas text_defs = strip_def isspace_def basic_lower_def basic_int_def btn_get_image_def
  btn_get_nine_def btn_custom_def btn_back_def cmd_get_image_def cmd_get_nine_def cmd_custom_def
  cmd_back_def

subsection \<open>A handler depends on the answers to its own calls only\<close>
























subsection \<open>The progress text\<close>

lemma digits_range: "\<forall>c \<in> set (digits k). 48 \<le> c \<and> c \<le> 57"
proof (induction k rule: digits.induct)
  case (1 n)
  show ?case
  proof (cases "n < 10")
    case True
    then show ?thesis by (simp add: digits.simps[of n])
  next
    case False
    have "n mod 10 < 10" by simp
    then have "48 + n mod 10 \<le> 57" by linarith
    with False 1 show ?thesis by (simp add: digits.simps[of n])
  qed
qed

lemma digits_not_Nil: "digits k \<noteq> []"
  by (simp add: digits.simps[of k])

lemma digits_value_snoc:
  "48 \<le> c \<Longrightarrow> c \<le> 57 \<Longrightarrow>
   digits_value acc (xs @ [c]) =
     (case digits_value acc xs of None \<Rightarrow> None | Some v \<Rightarrow> Some (10 * v + (c - 48)))"
  by (induction xs arbitrary: acc) simp_all

lemma digits_value_digits: "digits_value 0 (digits k) = Some k"
proof (induction k rule: digits.induct)
  case (1 n)
  show ?case
  proof (cases "n < 10")
    case True
    then show ?thesis by (simp add: digits.simps[of n])
  next
    case False
    have "n mod 10 < 10" by simp
    then have "48 + n mod 10 \<le> 57" by linarith
    with False 1 show ?thesis
      by (simp add: digits.simps[of n] digits_value_snoc)
  qed
qed

lemma takeWhile_digits:
  "c < 48 \<Longrightarrow> takeWhile (\<lambda>x. x \<noteq> c) (digits k @ c # r) = digits k"
proof -
  assume c: "c < 48"
  have "\<And>x. x \<in> set (digits k) \<Longrightarrow> x \<noteq> c" using digits_range[of k] c by auto
  then show ?thesis by (simp add: takeWhile_append2)
qed

lemma shown_progress_text:
  assumes "0 \<le> i" "0 \<le> n"
  shows "shown_progress (progress_text i n) = Some (nat i, nat n)"
proof -
  obtain r where tw: "txt_wait = 46 # r" by (simp add: txt_wait_def)
  have p: "progress_text i n =
      txt_generation @ (digits (nat i) @ 47 # (digits (nat n) @ 46 # r))"
    using assms by (simp add: progress_text_def str_int_def tw)
  show ?thesis
    unfolding p shown_progress_def
    by (simp add: Let_def takeWhile_digits digits_not_Nil digits_value_digits)
qed

section \<open>The claims\<close>

text \<open>
  C1. On the success path a run of \<^verbatim>\<open>generate_custom_images\<close> for \<open>n\<close> images returns
  normally, issues exactly \<open>n\<close> fetches and hands \<^verbatim>\<open>send_media_group\<close> the groups of
  sizes \<open>batch_sizes n GROUP_SIZE\<close>, in this order: \<open>\<lceil>n / GROUP_SIZE\<rceil>\<close> groups, holding
  \<open>n\<close> images in all, none larger than \<open>GROUP_SIZE\<close>; for \<open>n = 20\<close> the sizes are
  \<open>[9, 9, 2]\<close>. This holds for every \<open>n\<close>, so for every \<open>n\<close> from 1 to \<open>MAX_IMAGES\<close>.
\<close>

theorem relay_fetches_and_batches:
  assumes "all_succeed env w"
  shows "fst (generate_custom_images env m n w) = Inr () \<and>
    length (fetches (events_of (generate_custom_images env m n) w)) = nat n \<and>
    map length (batches (events_of (generate_custom_images env m n) w)) =
      batch_sizes (nat n) GROUP_SIZE \<and>
    length (batches (events_of (generate_custom_images env m n) w)) =
      (nat n + GROUP_SIZE - 1) div GROUP_SIZE \<and>
    sum_list (map length (batches (events_of (generate_custom_images env m n) w))) = nat n \<and>
    (\<forall>b \<in> set (batches (events_of (generate_custom_images env m n) w)). length b \<le> GROUP_SIZE) \<and>
    (n = 20 \<longrightarrow> map length (batches (events_of (generate_custom_images env m n) w)) = [9, 9, 2])"
proof -
  define evs where "evs = events_of (generate_custom_images env m n) w"
  have r: "fst (generate_custom_images env m n w) = Inr ()"
    unfolding generate_custom_images_relay using assms by (rule relay_ok)
  then have r': "fst (relay env (chat_id m) (start_text_custom n) n w) = Inr ()"
    by (simp add: generate_custom_images_relay)
  have f: "length (fetches evs) = nat n"
    and b: "map length (batches evs) = batch_sizes (nat n) GROUP_SIZE"
    unfolding evs_def generate_custom_images_relay
    by (rule relay_returned(1)[OF r'], rule relay_returned(2)[OF r'])
  have "length (batches evs) = length (map length (batches evs))" by simp
  also have "\<dots> = (nat n + GROUP_SIZE - 1) div GROUP_SIZE"
    unfolding b by (simp add: GROUP_SIZE_def batch_sizes_length9)
  finally have l: "length (batches evs) = (nat n + GROUP_SIZE - 1) div GROUP_SIZE" .
  have s: "sum_list (map length (batches evs)) = nat n" unfolding b by (rule batch_sizes_sum)
  have "\<forall>s \<in> set (map length (batches evs)). s \<le> GROUP_SIZE"
    unfolding b by (rule batch_sizes_le) (simp add: GROUP_SIZE_def)
  then have le: "\<forall>b \<in> set (batches evs). length b \<le> GROUP_SIZE" by simp
  have "n = 20 \<longrightarrow> map length (batches evs) = [9, 9, 2]"
    unfolding b by (simp add: batch_sizes_def GROUP_SIZE_def numeral_2_eq_2)
  with r f b l s le show ?thesis unfolding evs_def by simp
qed

theorem relay_fetches_and_batches_witness:
  "all_succeed env_ok world0 \<and>
   fst (generate_custom_images env_ok (user_message []) 20 world0) = Inr () \<and>
   length (fetches (events_of (generate_custom_images env_ok (user_message []) 20) world0)) = 20 \<and>
   map length (batches (events_of (generate_custom_images env_ok (user_message []) 20) world0))
     = [9, 9, 2]"
proof -
  have h: "all_succeed env_ok world0" by (simp add: all_succeed_def env_ok_def)
  from relay_fetches_and_batches[OF h, of "user_message []" 20] h show ?thesis
    by (simp add: batch_sizes_def GROUP_SIZE_def numeral_2_eq_2)
qed

text \<open>
  C2, as the code has it. A run that returns normally has removed every temporary file it
  wrote. A run in which a call of the loop raises (the fetch, the file write or read, the
  edit of the progress notification, the grouped send) ends at that call with that
  exception, removes no file at all, and every file written so far is still there: the
  code has no \<^verbatim>\<open>try/finally\<close> around the loop. This holds for both entry points.
\<close>

theorem files_released_only_on_return:
  assumes "run = send_multiple_images env m n \<or> run = generate_custom_images env m n"
  shows "(fst (run w) = Inr () \<longrightarrow>
            (\<forall>f \<in> set (written (events_of run w)). files (snd (run w)) f = None)) \<and>
         (\<forall>ev e. (ev, Some e) \<in> set (events_of run w) \<and> is_loop_call ev \<longrightarrow>
            fst (run w) = Inl e \<and> last (events_of run w) = (ev, Some e) \<and>
            removes (events_of run w) = [] \<and>
            (\<forall>f c. (FileWrite f c, None) \<in> set (events_of run w) \<longrightarrow>
                   files (snd (run w)) f \<noteq> None))"
proof -
  from assms obtain stxt where run: "run = relay env (chat_id m) stxt n" by (rule entry_points)
  show ?thesis
    unfolding run
  proof (rule conjI)
    show "fst (relay env (chat_id m) stxt n w) = Inr () \<longrightarrow>
        (\<forall>f \<in> set (written (events_of (relay env (chat_id m) stxt n) w)).
           files (snd (relay env (chat_id m) stxt n w)) f = None)"
      using relay_returned(5)[of env "chat_id m" stxt n w] by blast
  next
    show "\<forall>ev e. (ev, Some e) \<in> set (events_of (relay env (chat_id m) stxt n) w) \<and>
          is_loop_call ev \<longrightarrow>
        fst (relay env (chat_id m) stxt n w) = Inl e \<and>
        last (events_of (relay env (chat_id m) stxt n) w) = (ev, Some e) \<and>
        removes (events_of (relay env (chat_id m) stxt n) w) = [] \<and>
        (\<forall>f c. (FileWrite f c, None) \<in> set (events_of (relay env (chat_id m) stxt n) w) \<longrightarrow>
            files (snd (relay env (chat_id m) stxt n w)) f \<noteq> None)"
    proof (intro allI impI)
      fix ev e
      assume "(ev, Some e) \<in> set (events_of (relay env (chat_id m) stxt n) w) \<and> is_loop_call ev"
      then have h: "(ev, Some e) \<in> set (events_of (relay env (chat_id m) stxt n) w)"
        "is_loop_call ev" by simp_all
      from relay_raised(1)[OF h] relay_raised(2)[OF h] relay_raised(3)[OF h] relay_raised(5)[OF h]
      show "fst (relay env (chat_id m) stxt n w) = Inl e \<and>
        last (events_of (relay env (chat_id m) stxt n) w) = (ev, Some e) \<and>
        removes (events_of (relay env (chat_id m) stxt n) w) = [] \<and>
        (\<forall>f c. (FileWrite f c, None) \<in> set (events_of (relay env (chat_id m) stxt n) w) \<longrightarrow>
            files (snd (relay env (chat_id m) stxt n w)) f \<noteq> None)"
        by blast
    qed
  qed
qed

theorem files_released_only_on_return_witness:
  "fst (generate_custom_images env_ok (user_message []) 2 world0) = Inr () \<and>
   written (events_of (generate_custom_images env_ok (user_message []) 2) world0) = [Jpg 0, Jpg 1] \<and>
   files (snd (generate_custom_images env_ok (user_message []) 2 world0)) (Jpg 0) = None \<and>
   files (snd (generate_custom_images env_ok (user_message []) 2 world0)) (Jpg 1) = None \<and>
   (SendMediaGroup 7 [[255, 216, 1], [255, 216, 5]], Some ApiTelegramException)
      \<in> set (events_of (send_multiple_images (failing_at 9 ApiTelegramException) (user_message []) 2) world0) \<and>
   removes (events_of (send_multiple_images (failing_at 9 ApiTelegramException) (user_message []) 2) world0) = [] \<and>
   files (snd (send_multiple_images (failing_at 9 ApiTelegramException) (user_message []) 2 world0)) (Jpg 0) \<noteq> None"
proof -
  have a: "fst (generate_custom_images env_ok (user_message []) 2 world0) = Inr ()"
    by (simp add: run_defs)
  have b: "written (events_of (generate_custom_images env_ok (user_message []) 2) world0) = [Jpg 0, Jpg 1]"
    by (simp add: run_defs)
  have c: "(SendMediaGroup 7 [[255, 216, 1], [255, 216, 5]], Some ApiTelegramException)
      \<in> set (events_of (send_multiple_images (failing_at 9 ApiTelegramException) (user_message []) 2) world0)"
    by (simp add: run_defs)
  have d: "(FileWrite (Jpg 0) [255, 216, 1], None)
      \<in> set (events_of (send_multiple_images (failing_at 9 ApiTelegramException) (user_message []) 2) world0)"
    by (simp add: run_defs)
  note ok = files_released_only_on_return[of "generate_custom_images env_ok (user_message []) 2"
       env_ok "user_message []" 2 world0, OF disjI2[OF refl]]
  from ok[THEN conjunct1, rule_format, OF a] b
  have 1: "files (snd (generate_custom_images env_ok (user_message []) 2 world0)) (Jpg 0) = None"
     "files (snd (generate_custom_images env_ok (user_message []) 2 world0)) (Jpg 1) = None"
    by simp_all
  have lc: "is_loop_call (SendMediaGroup 7 [[255, 216, 1], [255, 216, 5]])" by simp
  note bad = files_released_only_on_return[of
       "send_multiple_images (failing_at 9 ApiTelegramException) (user_message []) 2"
       "failing_at 9 ApiTelegramException" "user_message []" 2 world0, OF disjI1[OF refl]]
  from bad[THEN conjunct2, rule_format, OF conjI[OF c lc]] d
  have 2: "removes (events_of (send_multiple_images (failing_at 9 ApiTelegramException) (user_message []) 2) world0) = []"
    "files (snd (send_multiple_images (failing_at 9 ApiTelegramException) (user_message []) 2 world0)) (Jpg 0) \<noteq> None"
    by blast+
  from a b c 1 2 show ?thesis by blast
qed

text \<open>
  The claim as stated fails: when the second fetch of a run for two images raises, the
  file of the first image is still on disk when the run ends.
\<close>

theorem cleanup_skipped_counterexample:
  "fst (generate_custom_images (failing_at 5 RequestException) (user_message []) 2 world0)
     = Inl RequestException \<and>
   written (events_of (generate_custom_images (failing_at 5 RequestException) (user_message []) 2)
     world0) = [Jpg 0] \<and>
   files (snd (generate_custom_images (failing_at 5 RequestException) (user_message []) 2 world0))
     (Jpg 0) = Some [255, 216, 1]"
  by (simp add: run_defs)

text \<open>
  C3, as the code has it. When a fetch of \<^verbatim>\<open>generate_custom_images\<close> raises, the
  exception leaves the run and the failing fetch is its last call: no further fetch is made
  and the incomplete group is not sent (every group sent before holds exactly
  \<open>GROUP_SIZE\<close> images). Nothing else happens either: no file is removed, the files of the
  images fetched before are still there, and the only message sent is the first progress
  notification, so the user gets no failure notification.
\<close>

theorem fetch_failure_aborts_without_cleanup:
  assumes "(HttpGet url, Some e) \<in> set (events_of (generate_custom_images env m n) w)"
  shows "fst (generate_custom_images env m n w) = Inl e \<and>
    last (events_of (generate_custom_images env m n) w) = (HttpGet url, Some e) \<and>
    (\<forall>b \<in> set (batches (events_of (generate_custom_images env m n) w)). length b = GROUP_SIZE) \<and>
    removes (events_of (generate_custom_images env m n) w) = [] \<and>
    (\<forall>f c. (FileWrite f c, None) \<in> set (events_of (generate_custom_images env m n) w) \<longrightarrow>
       files (snd (generate_custom_images env m n w)) f \<noteq> None) \<and>
    messages (events_of (generate_custom_images env m n) w) =
      [(SendMessage (chat_id m) (start_text_custom n) True NoMarkup, None)]"
proof -
  have h: "(HttpGet url, Some e) \<in> set (events_of (relay env (chat_id m) (start_text_custom n) n) w)"
    "is_loop_call (HttpGet url)"
    using assms by (simp_all add: generate_custom_images_relay)
  from relay_raised(1)[OF h] relay_raised(2)[OF h] relay_raised(3)[OF h] relay_raised(4)[OF h]
    relay_raised(5)[OF h] relay_raised(6)[OF h]
  show ?thesis unfolding generate_custom_images_relay by simp
qed

theorem fetch_failure_aborts_without_cleanup_witness:
  "(HttpGet IMAGE_URL, Some RequestException)
     \<in> set (events_of (generate_custom_images (failing_at 9 RequestException) (user_message []) 10)
          world0) \<and>
   fst (generate_custom_images (failing_at 9 RequestException) (user_message []) 10 world0)
     = Inl RequestException \<and>
   removes (events_of (generate_custom_images (failing_at 9 RequestException) (user_message []) 10)
     world0) = [] \<and>
   messages (events_of (generate_custom_images (failing_at 9 RequestException) (user_message []) 10)
     world0) = [(SendMessage 7 (start_text_custom 10) True NoMarkup, None)]"
proof -
  have h: "(HttpGet IMAGE_URL, Some RequestException)
     \<in> set (events_of (generate_custom_images (failing_at 9 RequestException) (user_message []) 10)
          world0)"
    by (simp add: run_defs)
  have c: "chat_id (user_message []) = 7" by (simp add: user_message_def)
  from fetch_failure_aborts_without_cleanup[OF h] h c show ?thesis by simp
qed

text \<open>
  The claim as stated fails on the scenario "the fetch of image 3 of 10 raises": the files of
  images 1 and 2 are still on disk, nothing was removed, and no notification follows the
  first one.
\<close>

theorem fetch_failure_counterexample:
  "fst (generate_custom_images (failing_at 9 RequestException) (user_message []) 10 world0)
     = Inl RequestException \<and>
   length (fetches (events_of
     (generate_custom_images (failing_at 9 RequestException) (user_message []) 10) world0)) = 3 \<and>
   files (snd (generate_custom_images (failing_at 9 RequestException) (user_message []) 10 world0))
     (Jpg 0) = Some [255, 216, 1] \<and>
   files (snd (generate_custom_images (failing_at 9 RequestException) (user_message []) 10 world0))
     (Jpg 1) = Some [255, 216, 5] \<and>
   removes (events_of
     (generate_custom_images (failing_at 9 RequestException) (user_message []) 10) world0) = [] \<and>
   messages (events_of
     (generate_custom_images (failing_at 9 RequestException) (user_message []) 10) world0)
     = [(SendMessage 7 (start_text_custom 10) True NoMarkup, None)]"
  by (simp add: run_defs)

text \<open>
  C4. On the success path of either entry point the progress notification is the message
  created by the first \<^verbatim>\<open>send_message\<close>, and it is edited exactly \<open>n\<close> times, always
  under that message id and never by a new message: no other message is sent but the
  completion notification. The text of edit number \<open>i\<close> is "Generatsiya ", the decimal
  digits of \<open>i\<close>, a slash, the decimal digits of \<open>n\<close> and the sentence that follows, so
  that the count a reader sees in the texts, in the order of the edits, is
  \<open>1, 2, \<dots>, n\<close>, each time out of \<open>n\<close>.
\<close>

theorem progress_edited_in_place:
  assumes "all_succeed env w"
    and "(run, stxt) = (send_multiple_images env m n, start_text_multiple n) \<or>
         (run, stxt) = (generate_custom_images env m n, start_text_custom n)"
  shows "fst (run w) = Inr () \<and>
    fst (send_message env (chat_id m) stxt True NoMarkup w) = Inr (new_message_id env (clock w)) \<and>
    edits (events_of run w) =
      map (\<lambda>i. (EditMessageText (chat_id m) (new_message_id env (clock w)) (progress_text i n), None))
        [1..n] \<and>
    edits (events_of run w) =
      map (\<lambda>i. (EditMessageText (chat_id m) (new_message_id env (clock w))
                  (txt_generation @ str_int i @ 47 # str_int n @ txt_wait), None))
        [1..n] \<and>
    map (\<lambda>x. shown_progress (edit_text (fst x))) (edits (events_of run w)) =
      map (\<lambda>i. Some (nat i, nat n)) [1..n] \<and>
    length (edits (events_of run w)) = nat n \<and>
    messages (events_of run w) =
      [(SendMessage (chat_id m) stxt True NoMarkup, None),
       (SendMessage (chat_id m) txt_done True create_main_markup, None)]"
proof -
  from assms(2) have run: "run = relay env (chat_id m) stxt n"
    using generate_custom_images_relay send_multiple_images_relay by auto
  have r: "fst (relay env (chat_id m) stxt n w) = Inr ()" using assms(1) by (rule relay_ok)
  from assms(1) have "failure env (clock w) = None" by (simp add: all_succeed_def)
  then have s: "fst (send_message env (chat_id m) stxt True NoMarkup w)
      = Inr (new_message_id env (clock w))"
    by (simp add: send_message_def call_def Let_def)
  note e = relay_returned(3)[OF r]
  have l: "length (edits (events_of (relay env (chat_id m) stxt n) w)) = nat n"
    unfolding e by simp
  have u: "edits (events_of (relay env (chat_id m) stxt n) w) =
      map (\<lambda>i. (EditMessageText (chat_id m) (new_message_id env (clock w))
                  (txt_generation @ str_int i @ 47 # str_int n @ txt_wait), None))
        [1..n]"
    unfolding e by (simp add: progress_text_def)
  have "map (\<lambda>x. shown_progress (edit_text (fst x)))
          (edits (events_of (relay env (chat_id m) stxt n) w)) =
        map (\<lambda>i. shown_progress (progress_text i n)) [1..n]"
    unfolding e by (simp add: comp_def)
  also have "\<dots> = map (\<lambda>i. Some (nat i, nat n)) [1..n]"
  proof (rule map_cong[OF refl])
    fix i assume "i \<in> set [1..n]"
    then have "0 \<le> i" "0 \<le> n" by simp_all
    then show "shown_progress (progress_text i n) = Some (nat i, nat n)"
      by (rule shown_progress_text)
  qed
  finally have sh: "map (\<lambda>x. shown_progress (edit_text (fst x)))
          (edits (events_of (relay env (chat_id m) stxt n) w)) =
        map (\<lambda>i. Some (nat i, nat n)) [1..n]" .
  from r s e u sh l relay_returned(4)[OF r] show ?thesis unfolding run by blast
qed

theorem progress_edited_in_place_witness:
  "all_succeed env_ok world0 \<and>
   edits (events_of (send_multiple_images env_ok (user_message []) 2) world0) =
     [(EditMessageText 7 1000
         [1043, 1077, 1085, 1077, 1088, 1072, 1094, 1080, 1103, 32, 49, 47, 50,
          46, 32, 1055, 1086, 1078, 1072, 1083, 1091, 1081, 1089, 1090, 1072, 44, 32, 1085,
          1077, 32, 1086, 1090, 1087, 1088, 1072, 1074, 1083, 1103, 1081, 1090, 1077, 32, 1089,
          1086, 1086, 1073, 1097, 1077, 1085, 1080, 1103, 46], None),
      (EditMessageText 7 1000
         [1043, 1077, 1085, 1077, 1088, 1072, 1094, 1080, 1103, 32, 50, 47, 50,
          46, 32, 1055, 1086, 1078, 1072, 1083, 1091, 1081, 1089, 1090, 1072, 44, 32, 1085,
          1077, 32, 1086, 1090, 1087, 1088, 1072, 1074, 1083, 1103, 1081, 1090, 1077, 32, 1089,
          1086, 1086, 1073, 1097, 1077, 1085, 1080, 1103, 46], None)] \<and>
   map (\<lambda>x. shown_progress (edit_text (fst x)))
     (edits (events_of (send_multiple_images env_ok (user_message []) 2) world0)) =
     [Some (1, 2), Some (2, 2)]"
proof -
  have h: "all_succeed env_ok world0" by (simp add: all_succeed_def env_ok_def)
  have c: "chat_id (user_message []) = 7" "new_message_id env_ok (clock world0) = 1000"
    by (simp_all add: user_message_def env_ok_def world0_def)
  have u: "[1..(2::int)] = [1, 2]" by (simp add: upto.simps)
  note inst = progress_edited_in_place[OF h disjI1[OF refl], of "user_message []" 2]
  from inst have 1: "edits (events_of (send_multiple_images env_ok (user_message []) 2) world0) =
      map (\<lambda>i. (EditMessageText (chat_id (user_message [])) (new_message_id env_ok (clock world0))
                  (txt_generation @ str_int i @ 47 # str_int 2 @ txt_wait), None))
        [1..2]"
    by blast
  from inst have 2: "map (\<lambda>x. shown_progress (edit_text (fst x)))
     (edits (events_of (send_multiple_images env_ok (user_message []) 2) world0)) =
      map (\<lambda>i. Some (nat i, nat 2)) [1..2]"
    by blast
  have 3: "edits (events_of (send_multiple_images env_ok (user_message []) 2) world0) =
     [(EditMessageText 7 1000
         [1043, 1077, 1085, 1077, 1088, 1072, 1094, 1080, 1103, 32, 49, 47, 50,
          46, 32, 1055, 1086, 1078, 1072, 1083, 1091, 1081, 1089, 1090, 1072, 44, 32, 1085,
          1077, 32, 1086, 1090, 1087, 1088, 1072, 1074, 1083, 1103, 1081, 1090, 1077, 32, 1089,
          1086, 1086, 1073, 1097, 1077, 1085, 1080, 1103, 46], None),
      (EditMessageText 7 1000
         [1043, 1077, 1085, 1077, 1088, 1072, 1094, 1080, 1103, 32, 50, 47, 50,
          46, 32, 1055, 1086, 1078, 1072, 1083, 1091, 1081, 1089, 1090, 1072, 44, 32, 1085,
          1077, 32, 1086, 1090, 1087, 1088, 1072, 1074, 1083, 1103, 1081, 1090, 1077, 32, 1089,
          1086, 1086, 1073, 1097, 1077, 1085, 1080, 1103, 46], None)]"
    unfolding 1 u c
    by (simp add: txt_generation_def txt_wait_def str_int_def digits.simps)
  have 4: "map (\<lambda>x. shown_progress (edit_text (fst x)))
     (edits (events_of (send_multiple_images env_ok (user_message []) 2) world0)) =
     [Some (1, 2), Some (2, 2)]"
    unfolding 2 u by simp
  from h 3 4 show ?thesis by blast
qed

text \<open>
  C5, as the code has it. An edit of the progress notification that raises is not
  swallowed: in both entry points the exception leaves the run, and the failing edit is the
  last call of the run, so the rest of the loop is not executed.
\<close>

theorem edit_failure_propagates:
  assumes "run = send_multiple_images env m n \<or> run = generate_custom_images env m n"
    and "(EditMessageText c mid t, Some e) \<in> set (events_of run w)"
  shows "fst (run w) = Inl e \<and> last (events_of run w) = (EditMessageText c mid t, Some e)"
proof -
  from assms(1) obtain stxt where run: "run = relay env (chat_id m) stxt n" by (rule entry_points)
  have h: "(EditMessageText c mid t, Some e) \<in> set (events_of (relay env (chat_id m) stxt n) w)"
    "is_loop_call (EditMessageText c mid t)"
    using assms(2) by (simp_all add: run)
  from relay_raised(1)[OF h] relay_raised(2)[OF h] show ?thesis unfolding run by simp
qed

theorem edit_failure_propagates_witness:
  "(EditMessageText 7 1000 (progress_text 1 2), Some ApiTelegramException)
     \<in> set (events_of (generate_custom_images (failing_at 4 ApiTelegramException)
               (user_message []) 2) world0) \<and>
   fst (generate_custom_images (failing_at 4 ApiTelegramException) (user_message []) 2 world0)
     = Inl ApiTelegramException \<and>
   last (events_of (generate_custom_images (failing_at 4 ApiTelegramException)
               (user_message []) 2) world0)
     = (EditMessageText 7 1000 (progress_text 1 2), Some ApiTelegramException)"
proof -
  have h: "(EditMessageText 7 1000 (progress_text 1 2), Some ApiTelegramException)
     \<in> set (events_of (generate_custom_images (failing_at 4 ApiTelegramException)
               (user_message []) 2) world0)"
    by (simp add: run_defs)
  from edit_failure_propagates[OF disjI2[OF refl] h] h show ?thesis by simp
qed

text \<open>
  The claim as stated fails: when the first edit of a run for two images raises, the run
  raises, the second image is never fetched and nothing is delivered.
\<close>

theorem edit_failure_counterexample:
  "fst (generate_custom_images (failing_at 4 ApiTelegramException) (user_message []) 2 world0)
     = Inl ApiTelegramException \<and>
   length (fetches (events_of (generate_custom_images (failing_at 4 ApiTelegramException)
               (user_message []) 2) world0)) = 1 \<and>
   batches (events_of (generate_custom_images (failing_at 4 ApiTelegramException)
               (user_message []) 2) world0) = []"
  by (simp add: run_defs)

text \<open>
  C6, as the code has it. \<^verbatim>\<open>download_image\<close> raises exactly when the HTTP GET raises or
  the write of the temporary file raises. It never inspects the response: whatever body
  arrives, also an empty one or one that is no image, is written to the file, and the file
  name is returned as a fetched image.
\<close>

theorem download_image_stores_any_body:
  "((\<exists>e. fst (download_image env w) = Inl e) \<longleftrightarrow>
      (failure env (clock w) \<noteq> None \<or> failure env (Suc (clock w)) \<noteq> None)) \<and>
   (failure env (clock w) = None \<and> failure env (Suc (clock w)) = None \<longrightarrow>
      fst (download_image env w) = Inr (Jpg (next_uuid w)) \<and>
      events_of (download_image env) w =
        [(HttpGet IMAGE_URL, None), (FileWrite (Jpg (next_uuid w)) (payload env (clock w)), None)] \<and>
      files (snd (download_image env w)) (Jpg (next_uuid w)) = Some (payload env (clock w))) \<and>
   (\<forall>e. failure env (clock w) = Some e \<longrightarrow>
      fst (download_image env w) = Inl e \<and>
      events_of (download_image env) w = [(HttpGet IMAGE_URL, Some e)]) \<and>
   (\<forall>e. failure env (clock w) = None \<and> failure env (Suc (clock w)) = Some e \<longrightarrow>
      fst (download_image env w) = Inl e \<and>
      events_of (download_image env) w =
        [(HttpGet IMAGE_URL, None), (FileWrite (Jpg (next_uuid w)) (payload env (clock w)), Some e)])"
  by (cases "failure env (clock w)"; cases "failure env (Suc (clock w))")
     (simp_all add: prim_defs events_of_def Let_def)

theorem download_image_stores_any_body_witness:
  "fst (download_image env_empty_body world0) = Inr (Jpg 0) \<and>
   files (snd (download_image env_empty_body world0)) (Jpg 0) = Some [] \<and>
   fst (download_image (failing_at 0 RequestException) world0) = Inl RequestException \<and>
   fst (download_image (failing_at 1 OSError) world0) = Inl OSError"
proof -
  have a: "failure env_empty_body (clock world0) = None \<and>
           failure env_empty_body (Suc (clock world0)) = None"
    "payload env_empty_body (clock world0) = []" "next_uuid world0 = 0"
    by (simp_all add: env_empty_body_def env_ok_def world0_def)
  have b: "failure (failing_at 0 RequestException) (clock world0) = Some RequestException"
    by (simp add: failing_at_def env_ok_def world0_def)
  have c: "failure (failing_at 1 OSError) (clock world0) = None \<and>
           failure (failing_at 1 OSError) (Suc (clock world0)) = Some OSError"
    by (simp add: failing_at_def env_ok_def world0_def)
  note t1 = download_image_stores_any_body[of env_empty_body world0]
  note t2 = download_image_stores_any_body[of "failing_at 0 RequestException" world0]
  note t3 = download_image_stores_any_body[of "failing_at 1 OSError" world0]
  from t1[THEN conjunct2, THEN conjunct1, rule_format, OF a(1)] a(2,3)
  have 1: "fst (download_image env_empty_body world0) = Inr (Jpg 0)"
    "files (snd (download_image env_empty_body world0)) (Jpg 0) = Some []" by simp_all
  from t2[THEN conjunct2, THEN conjunct2, THEN conjunct1, rule_format, OF b]
  have 2: "fst (download_image (failing_at 0 RequestException) world0) = Inl RequestException"
    by simp
  from t3[THEN conjunct2, THEN conjunct2, THEN conjunct2, rule_format, OF c]
  have 3: "fst (download_image (failing_at 1 OSError) world0) = Inl OSError" by simp
  from 1 2 3 show ?thesis by simp
qed

text \<open>
  The claim as stated fails: an empty response body is stored and returned as an image.
\<close>

theorem empty_body_counterexample:
  "fst (download_image env_empty_body world0) = Inr (Jpg 0) \<and>
   files (snd (download_image env_empty_body world0)) (Jpg 0) = Some []"
  by (simp add: prim_defs env_empty_body_def env_ok_def world0_def Let_def)

text \<open>
  C7. \<^verbatim>\<open>handle_custom_quantity\<close> on any text: if its lower-case form is "nazad" the only
  call is the message "you are back on the main page" with the main keyboard, and nothing
  is fetched; otherwise, if \<^verbatim>\<open>int\<close> reads a number from 1 to 100, the log starts with
  the log of \<^verbatim>\<open>generate_custom_images\<close> for that number (and the handler is that run,
  unless the run itself raises \<^verbatim>\<open>ValueError\<close>); otherwise (no number, or a number outside
  1..100, such as "150") the handler is the re-prompt: the message "enter a number from 1 to
  100" and the registration of the handler for the next message, and nothing is fetched.
\<close>

theorem custom_quantity_input:
  "(str_lower env (msg_text m) = cmd_back \<longrightarrow>
      events_of (handle_custom_quantity env m) w =
        [(SendMessage (chat_id m) txt_returned False create_main_markup, failure env (clock w))] \<and>
      fetches (events_of (handle_custom_quantity env m) w) = []) \<and>
   (str_lower env (msg_text m) \<noteq> cmd_back \<longrightarrow>
      (\<forall>q. int_of_str env (msg_text m) = Some q \<and> 1 \<le> q \<and> q \<le> 100 \<longrightarrow>
         (\<exists>rest. events_of (handle_custom_quantity env m) w =
            events_of (generate_custom_images env m q) w @ rest) \<and>
         (fst (generate_custom_images env m q w) \<noteq> Inl ValueError \<longrightarrow>
            handle_custom_quantity env m w = generate_custom_images env m q w)) \<and>
      (int_of_str env (msg_text m) = None \<or>
       (\<exists>q. int_of_str env (msg_text m) = Some q \<and> (q < 1 \<or> 100 < q)) \<longrightarrow>
         handle_custom_quantity env m w = reprompt env m w \<and>
         events_of (handle_custom_quantity env m) w =
           (SendMessage (chat_id m) txt_enter_number True create_quantity_markup,
              failure env (clock w)) #
           (case failure env (clock w) of
              None \<Rightarrow> [(RegisterNextStep (new_message_id env (clock w)) HandleCustomQuantity, None)]
            | Some e \<Rightarrow> []) \<and>
         fetches (events_of (handle_custom_quantity env m) w) = []))"
proof (intro conjI impI allI)
  assume b: "str_lower env (msg_text m) = cmd_back"
  then show "events_of (handle_custom_quantity env m) w =
        [(SendMessage (chat_id m) txt_returned False create_main_markup, failure env (clock w))]"
    by (cases "failure env (clock w)")
       (simp_all add: handle_custom_quantity_def send_message_def call_def events_of_def Let_def)
  then show "fetches (events_of (handle_custom_quantity env m) w) = []"
    by (simp add: log_simps)
next
  fix q
  assume nb: "str_lower env (msg_text m) \<noteq> cmd_back"
    and q: "int_of_str env (msg_text m) = Some q \<and> 1 \<le> q \<and> q \<le> 100"
  obtain r w1 where run: "generate_custom_images env m q w = (r, w1)"
    by (cases "generate_custom_images env m q w")
  from relay_extends[of env "chat_id m" "start_text_custom q" q w] run
  obtain evs where evs: "trace w1 = trace w @ evs"
    by (auto simp: generate_custom_images_relay)
  have e1: "events_of (generate_custom_images env m q) w = evs"
    using run evs by (simp add: events_of_def)
  show "\<exists>rest. events_of (handle_custom_quantity env m) w =
            events_of (generate_custom_images env m q) w @ rest"
  proof (cases "r = Inl ValueError")
    case True
    then have "handle_custom_quantity env m w = reprompt env m w1"
      using nb q run by (simp add: handle_custom_quantity_def MAX_IMAGES_def)
    then show ?thesis
      unfolding e1 by (simp add: events_of_def reprompt_events evs)
  next
    case False
    then have "handle_custom_quantity env m w = (r, w1)"
      using nb q run
      by (cases r) (auto simp: handle_custom_quantity_def MAX_IMAGES_def split: exn.splits)
    then show ?thesis unfolding e1 by (simp add: events_of_def evs)
  qed
  show "handle_custom_quantity env m w = generate_custom_images env m q w"
    if "fst (generate_custom_images env m q w) \<noteq> Inl ValueError"
    using that nb q run
    by (cases r) (auto simp: handle_custom_quantity_def MAX_IMAGES_def split: exn.splits)
next
  assume nb: "str_lower env (msg_text m) \<noteq> cmd_back"
    and bad: "int_of_str env (msg_text m) = None \<or>
       (\<exists>q. int_of_str env (msg_text m) = Some q \<and> (q < 1 \<or> 100 < q))"
  then show h: "handle_custom_quantity env m w = reprompt env m w"
    by (auto simp: handle_custom_quantity_def MAX_IMAGES_def)
  then show e: "events_of (handle_custom_quantity env m) w =
           (SendMessage (chat_id m) txt_enter_number True create_quantity_markup,
              failure env (clock w)) #
           (case failure env (clock w) of
              None \<Rightarrow> [(RegisterNextStep (new_message_id env (clock w)) HandleCustomQuantity, None)]
            | Some e \<Rightarrow> [])"
    by (simp add: events_of_def reprompt_events)
  show "fetches (events_of (handle_custom_quantity env m) w) = []"
    unfolding e by (simp add: log_simps split: option.splits)
qed

theorem custom_quantity_input_witness:
  "str_lower env_ok (msg_text (user_message btn_back)) = cmd_back \<and>
   events_of (handle_custom_quantity env_ok (user_message btn_back)) world0 =
     [(SendMessage 7 txt_returned False create_main_markup, None)] \<and>
   int_of_str env_ok (msg_text (user_message [49, 53, 48])) = Some 150 \<and>
   events_of (handle_custom_quantity env_ok (user_message [49, 53, 48])) world0 =
     [(SendMessage 7 txt_enter_number True create_quantity_markup, None),
      (RegisterNextStep 1000 HandleCustomQuantity, None)] \<and>
   fetches (events_of (handle_custom_quantity env_ok (user_message [49, 53, 48])) world0) = [] \<and>
   int_of_str env_ok (msg_text (user_message [50])) = Some 2 \<and>
   handle_custom_quantity env_ok (user_message [50]) world0 =
     generate_custom_images env_ok (user_message [50]) 2 world0"
proof -
  have c: "failure env_ok (clock world0) = None" "new_message_id env_ok (clock world0) = 1000"
    "\<And>t. chat_id (user_message t) = 7"
    by (simp_all add: env_ok_def world0_def user_message_def)
  have b: "str_lower env_ok (msg_text (user_message btn_back)) = cmd_back"
    by (simp add: env_ok_def user_message_def text_defs)
  have n150: "str_lower env_ok (msg_text (user_message [49, 53, 48])) \<noteq> cmd_back"
    "int_of_str env_ok (msg_text (user_message [49, 53, 48])) = Some 150"
    by (simp_all add: env_ok_def user_message_def text_defs)
  have n2: "str_lower env_ok (msg_text (user_message [50])) \<noteq> cmd_back"
    "int_of_str env_ok (msg_text (user_message [50])) = Some 2"
    by (simp_all add: env_ok_def user_message_def text_defs)
  have ok: "fst (generate_custom_images env_ok (user_message [50]) 2 world0) \<noteq> Inl ValueError"
    by (simp add: run_defs)
  note t1 = custom_quantity_input[of env_ok "user_message btn_back" world0]
  note t2 = custom_quantity_input[of env_ok "user_message [49, 53, 48]" world0]
  note t3 = custom_quantity_input[of env_ok "user_message [50]" world0]
  from t1[THEN conjunct1, rule_format, OF b] c
  have 1: "events_of (handle_custom_quantity env_ok (user_message btn_back)) world0 =
     [(SendMessage 7 txt_returned False create_main_markup, None)]" by simp
  have "int_of_str env_ok (msg_text (user_message [49, 53, 48])) = None \<or>
       (\<exists>q. int_of_str env_ok (msg_text (user_message [49, 53, 48])) = Some q \<and> (q < 1 \<or> 100 < q))"
    using n150(2) by simp
  from t2[THEN conjunct2, rule_format, OF n150(1), THEN conjunct2, rule_format, OF this] c
  have 2: "events_of (handle_custom_quantity env_ok (user_message [49, 53, 48])) world0 =
     [(SendMessage 7 txt_enter_number True create_quantity_markup, None),
      (RegisterNextStep 1000 HandleCustomQuantity, None)]"
    "fetches (events_of (handle_custom_quantity env_ok (user_message [49, 53, 48])) world0) = []"
    by (simp_all add: log_simps)
  have "int_of_str env_ok (msg_text (user_message [50])) = Some 2 \<and> (1::int) \<le> 2 \<and> (2::int) \<le> 100"
    using n2(2) by simp
  from t3[THEN conjunct2, rule_format, OF n2(1), THEN conjunct1, rule_format, OF this,
          THEN conjunct2, rule_format, OF ok]
  have 3: "handle_custom_quantity env_ok (user_message [50]) world0 =
     generate_custom_images env_ok (user_message [50]) 2 world0" .
  from b 1 n150(2) 2 n2(2) 3 show ?thesis by simp
qed

text \<open>
  C8, as the code has it. The "one image" button is not served by the batch loop but by
  \<^verbatim>\<open>send_single_image\<close>: on the success path it makes exactly one fetch, sends the image
  with one \<^verbatim>\<open>send_photo\<close> (no grouped send), removes the temporary file, tries to delete
  the user's message and sends the completion notification. No progress notification is
  sent or edited. The last part is the whole log of \<^verbatim>\<open>handle_text\<close> for that button.
\<close>

theorem one_image_is_sent_as_photo:
  assumes "all_succeed env w"
  shows "fst (send_single_image env m w) = Inr () \<and>
    events_of (send_single_image env m) w =
      [(HttpGet IMAGE_URL, None),
       (FileWrite (Jpg (next_uuid w)) (payload env (clock w)), None),
       (FileRead (Jpg (next_uuid w)), None),
       (SendPhoto (chat_id m) (payload env (clock w)), None),
       (FileRemove (Jpg (next_uuid w)), None),
       (DeleteMessage (chat_id m) (message_id m), None),
       (SendMessage (chat_id m) txt_done True create_main_markup, None)] \<and>
    files (snd (send_single_image env m w)) (Jpg (next_uuid w)) = None \<and>
    (str_lower env (strip (msg_text m)) = cmd_get_image \<longrightarrow>
       fst (handle_text env m w) = Inr () \<and>
       events_of (handle_text env m) w =
         [(DeleteMessage (chat_id m) (message_id m - 1), None),
          (HttpGet IMAGE_URL, None),
          (FileWrite (Jpg (next_uuid w)) (payload env (Suc (clock w))), None),
          (FileRead (Jpg (next_uuid w)), None),
          (SendPhoto (chat_id m) (payload env (Suc (clock w))), None),
          (FileRemove (Jpg (next_uuid w)), None),
          (DeleteMessage (chat_id m) (message_id m), None),
          (SendMessage (chat_id m) txt_done True create_main_markup, None)])"
proof -
  have f: "failure env (clock w) = None" "failure env (Suc (clock w)) = None"
    "failure env (Suc (Suc (clock w))) = None" "failure env (Suc (Suc (Suc (clock w)))) = None"
    "failure env (Suc (Suc (Suc (Suc (clock w))))) = None"
    "failure env (Suc (Suc (Suc (Suc (Suc (clock w)))))) = None"
    "failure env (Suc (Suc (Suc (Suc (Suc (Suc (clock w))))))) = None"
    "failure env (Suc (Suc (Suc (Suc (Suc (Suc (Suc (clock w)))))))) = None"
    using assms by (simp_all add: all_succeed_def)
  have 1: "fst (send_single_image env m w) = Inr ()"
    and 2: "events_of (send_single_image env m) w =
      [(HttpGet IMAGE_URL, None),
       (FileWrite (Jpg (next_uuid w)) (payload env (clock w)), None),
       (FileRead (Jpg (next_uuid w)), None),
       (SendPhoto (chat_id m) (payload env (clock w)), None),
       (FileRemove (Jpg (next_uuid w)), None),
       (DeleteMessage (chat_id m) (message_id m), None),
       (SendMessage (chat_id m) txt_done True create_main_markup, None)]"
    and 3: "files (snd (send_single_image env m w)) (Jpg (next_uuid w)) = None"
    using f by (simp_all add: send_single_image_def prim_defs events_of_def Let_def)
  have 4: "str_lower env (strip (msg_text m)) = cmd_get_image \<longrightarrow>
       fst (handle_text env m w) = Inr () \<and>
       events_of (handle_text env m) w =
         [(DeleteMessage (chat_id m) (message_id m - 1), None),
          (HttpGet IMAGE_URL, None),
          (FileWrite (Jpg (next_uuid w)) (payload env (Suc (clock w))), None),
          (FileRead (Jpg (next_uuid w)), None),
          (SendPhoto (chat_id m) (payload env (Suc (clock w))), None),
          (FileRemove (Jpg (next_uuid w)), None),
          (DeleteMessage (chat_id m) (message_id m), None),
          (SendMessage (chat_id m) txt_done True create_main_markup, None)]"
    using f by (simp add: handle_text_unfold dispatch_def send_single_image_def prim_defs
         events_of_def Let_def)
  from 1 2 3 4 show ?thesis by blast
qed

theorem one_image_is_sent_as_photo_witness:
  "all_succeed env_ok world0 \<and>
   str_lower env_ok (strip (msg_text (user_message btn_get_image))) = cmd_get_image \<and>
   events_of (handle_text env_ok (user_message btn_get_image)) world0 =
     [(DeleteMessage 7 41, None), (HttpGet IMAGE_URL, None),
      (FileWrite (Jpg 0) [255, 216, 1], None), (FileRead (Jpg 0), None),
      (SendPhoto 7 [255, 216, 1], None), (FileRemove (Jpg 0), None),
      (DeleteMessage 7 42, None), (SendMessage 7 txt_done True create_main_markup, None)]"
proof -
  have h: "all_succeed env_ok world0" by (simp add: all_succeed_def env_ok_def)
  have t: "str_lower env_ok (strip (msg_text (user_message btn_get_image))) = cmd_get_image"
    by (simp add: env_ok_def user_message_def text_defs)
  have c: "chat_id (user_message btn_get_image) = 7" "message_id (user_message btn_get_image) = 42"
    "next_uuid world0 = 0" "payload env_ok (Suc (clock world0)) = [255, 216, 1]"
    by (simp_all add: user_message_def world0_def env_ok_def)
  note inst = one_image_is_sent_as_photo[OF h, of "user_message btn_get_image"]
  from inst[THEN conjunct2, THEN conjunct2, THEN conjunct2, rule_format, OF t] h t c
  show ?thesis by simp
qed

text \<open>
  The claim as stated fails: for the "one image" button no group is sent, no message is
  edited, and the only message sent is the completion notification.
\<close>

theorem one_image_counterexample:
  "batches (events_of (handle_text env_ok (user_message btn_get_image)) world0) = [] \<and>
   edits (events_of (handle_text env_ok (user_message btn_get_image)) world0) = [] \<and>
   messages (events_of (handle_text env_ok (user_message btn_get_image)) world0) =
     [(SendMessage 7 txt_done True create_main_markup, None)]"
  by (simp add: handle_text_def run_defs text_defs)






end
